theory Spec2Isabelle
  imports Complex_Main "HOL-Library.Product_Lexorder" "HOL-Library.Multiset"
begin

section \<open>Data model\<close>

text \<open>
  The dataset is the JSON document both scripts load: a dictionary from step name to a
  step, each step holding a list of items (dictionaries) and, optionally, the geometric
  context \<^verbatim>\<open>axis_center\<close>, \<^verbatim>\<open>calculated_radius\<close>, \<^verbatim>\<open>calculated_z\<close>.
  Python floats are modelled as real numbers (exact arithmetic), except in the section
  on double arithmetic, where a rounding decides a statement. A key that may be absent
  from an item is an option, \<open>None\<close> when it is absent.

  \<^verbatim>\<open>Calibration_Status\<close> is a string in the source; the four values the code
  compares against are constructors, and every other value (or an absent key) is
  \<open>other_status\<close>.
\<close>

datatype calibration_status =
  original | visually_calibrated | uncalibrated | estimated | other_status

text \<open>
  \<open>parsed_ts\<close> is the transient field \<^verbatim>\<open>_parsed_ts\<close> of step 05: the timestamp
  parsed by \<^verbatim>\<open>strptime\<close> (as a count of seconds), or \<open>None\<close> when the timestamp is
  absent, empty or does not parse (the bare \<^verbatim>\<open>except\<close>).
\<close>

record image_record =
  ImageNumber :: int
  parsed_ts :: "nat option"
  Sequence :: "string option"
  Calibration_Status :: calibration_status
  Angular_position :: "real option"
  Omega :: "real option"
  Phi :: "real option"
  Kappa :: "real option"
  X :: "real option"
  Y :: "real option"
  Z :: "real option"

record step_info =
  items :: "image_record list"
  axis_center :: "(real \<times> real) option"
  calculated_radius :: "real option"
  calculated_z :: "real option"

type_synonym dataset = "(string \<times> step_info) list"

text \<open>
  \<^verbatim>\<open>angle_to_xy\<close> is imported from \<^verbatim>\<open>processing.angular_transform\<close>, which is
  not among the sources; the interpolator takes it as a parameter.
\<close>

type_synonym projector = "real \<Rightarrow> real \<Rightarrow> real \<times> real \<times> real"

section \<open>Step 05: gap interpolation\<close>

subsection \<open>Sorting\<close>

text \<open>
  The sort key is \<^verbatim>\<open>(int(x["ImageNumber"]), x["_parsed_ts"] or datetime.max)\<close>.
  Every parsed timestamp is below \<^verbatim>\<open>datetime.max\<close>, so a missing timestamp is
  the pair \<open>(1, 0)\<close> and a present one \<open>(0, t)\<close>. Python's sort is stable, as is
  \<^const>\<open>sort_key\<close>.
\<close>

definition ts_key :: "nat option \<Rightarrow> nat \<times> nat" where
  "ts_key ts = (case ts of Some t \<Rightarrow> (0, t) | None \<Rightarrow> (1, 0))"

definition item_key :: "image_record \<Rightarrow> int \<times> nat \<times> nat" where
  "item_key x = (ImageNumber x, ts_key (parsed_ts x))"

definition sort_items :: "image_record list \<Rightarrow> image_record list" where
  "sort_items its = sort_key item_key its"

subsection \<open>The forward scan\<close>

text \<open>
  Items are mutable dictionaries shared between the item list and the segments, so a
  segment holds positions in the sorted list: \<open>(prev_calibrated, item, current_segment)\<close>.
  The scan follows the loop of lines 44 to 52: an anchor closes a segment when a previous
  anchor and a non-empty run exist, and becomes the previous anchor; an uncalibrated item
  is appended to the run; any other status is passed over.
\<close>

type_synonym segment = "nat \<times> nat \<times> nat list"

fun scan :: "(nat \<times> image_record) list \<Rightarrow> nat option \<Rightarrow> nat list \<Rightarrow> segment list" where
  "scan [] prev_calibrated current_segment = []"
| "scan ((i, item) # rest) prev_calibrated current_segment =
     (if Calibration_Status item = original \<or> Calibration_Status item = visually_calibrated then
        (case prev_calibrated of
           Some p \<Rightarrow>
             (if current_segment \<noteq> []
              then (p, i, current_segment) # scan rest (Some i) []
              else scan rest (Some i) current_segment)
         | None \<Rightarrow> scan rest (Some i) current_segment)
      else if Calibration_Status item = uncalibrated then
        scan rest prev_calibrated (current_segment @ [i])
      else scan rest prev_calibrated current_segment)"

definition uncalibrated_segments :: "image_record list \<Rightarrow> segment list" where
  "uncalibrated_segments its = scan (enumerate 0 its) None []"

subsection \<open>Angles of a segment\<close>

text \<open>
  \<^verbatim>\<open>np.linspace(start, stop, num)\<close>: \<open>num\<close> samples \<open>start + i * step\<close> with
  \<open>step = (stop - start) / (num - 1)\<close>, the last one set to \<open>stop\<close>.
  \<open>interior\<close> is the slice \<^verbatim>\<open>[1:-1]\<close>.
\<close>

definition linspace :: "real \<Rightarrow> real \<Rightarrow> nat \<Rightarrow> real list" where
  "linspace start stop num =
     (if num = 0 then []
      else if num = 1 then [start]
      else map (\<lambda>i. start + real i * ((stop - start) / real (num - 1))) [0..<num - 1] @ [stop])"

definition interior :: "'a list \<Rightarrow> 'a list" where
  "interior xs = butlast (tl xs)"

text \<open>Lines 64 to 68: the angles of a run of \<open>n\<close> items, before smoothing.\<close>

definition theta_values :: "real \<Rightarrow> real \<Rightarrow> nat \<Rightarrow> real list" where
  "theta_values start_theta end_theta n =
     (let num_steps = n + 1 in
      if \<bar>start_theta - end_theta\<bar> < 1 then replicate n start_theta
      else interior (linspace start_theta end_theta (num_steps + 1)))"

subsection \<open>Smoothing\<close>

text \<open>
  Modelled from the spec: \<^verbatim>\<open>scipy.signal.savgol_filter\<close> is a library routine,
  absent from the sources. The spec calls it a local quadratic polynomial regression
  filter with window \<open>min(n, 3)\<close> and order 2; the code calls it only when
  \<open>n \<ge> 3\<close>, so the window is 3. In exact arithmetic: at an inner position the output is
  the value at the centre of the least-squares quadratic over the window of three samples;
  at the first and the last position (the default mode \<^verbatim>\<open>interp\<close>) it is the value,
  at that position, of the least-squares quadratic over the first and the last three samples.

  \<open>quadratic_fit y0 y1 y2\<close> gives the coefficients \<open>(c0, c1, c2)\<close> of the
  least-squares quadratic \<open>c0 + c1 t + c2 t\<^sup>2\<close> through the samples at
  \<open>t = -1, 0, 1\<close>.
\<close>

definition quadratic_fit :: "real \<Rightarrow> real \<Rightarrow> real \<Rightarrow> real \<times> real \<times> real" where
  "quadratic_fit y0 y1 y2 = (y1, (y2 - y0) / 2, (y0 + y2) / 2 - y1)"

definition polyval :: "real \<times> real \<times> real \<Rightarrow> real \<Rightarrow> real" where
  "polyval c t = (case c of (c0, c1, c2) \<Rightarrow> c0 + c1 * t + c2 * t * t)"

definition savgol_filter_3_2 :: "real list \<Rightarrow> real list" where
  "savgol_filter_3_2 xs =
     (let n = length xs in
      map (\<lambda>i.
             if i = 0 then polyval (quadratic_fit (xs ! 0) (xs ! 1) (xs ! 2)) (- 1)
             else if i = n - 1 then
               polyval (quadratic_fit (xs ! (n - 3)) (xs ! (n - 2)) (xs ! (n - 1))) 1
             else polyval (quadratic_fit (xs ! (i - 1)) (xs ! i) (xs ! (i + 1))) 0)
          [0..<n])"

text \<open>Lines 70 to 72, with the filter in exact arithmetic.\<close>

definition smooth :: "real list \<Rightarrow> real list" where
  "smooth thetas = (if 3 \<le> length thetas then savgol_filter_3_2 thetas else thetas)"

subsection \<open>Filling a segment\<close>

text \<open>Lines 75 to 82: the five assignments to one run item.\<close>

definition set_estimated ::
  "projector \<Rightarrow> real \<Rightarrow> real \<Rightarrow> real \<Rightarrow> image_record \<Rightarrow> image_record" where
  "set_estimated angle_to_xy radius z_value interpolated_theta item =
     (case angle_to_xy interpolated_theta radius of
        (x, y, _) \<Rightarrow>
          item\<lparr>Angular_position := Some interpolated_theta,
               X := Some x, Y := Some y, Z := Some z_value,
               Calibration_Status := estimated\<rparr>)"

text \<open>
  The loop of line 74 over the run and its angles; an assignment to a run item is an
  update of the item list at the item's position.
\<close>

fun assign ::
  "projector \<Rightarrow> real \<Rightarrow> real \<Rightarrow> nat list \<Rightarrow> real list \<Rightarrow> image_record list \<Rightarrow> image_record list"
where
  "assign angle_to_xy radius z_value (i # run) (theta # thetas) its =
     assign angle_to_xy radius z_value run thetas
       (its[i := set_estimated angle_to_xy radius z_value theta (its ! i)])"
| "assign angle_to_xy radius z_value _ _ its = its"

text \<open>
  Lines 56 to 82 for one segment. The endpoint angles are read with \<^verbatim>\<open>.get\<close>; a
  missing one, or a difference below 0.01, skips the segment.
\<close>

definition interpolate_segment ::
  "projector \<Rightarrow> real \<Rightarrow> real \<Rightarrow> segment \<Rightarrow> image_record list \<Rightarrow> image_record list" where
  "interpolate_segment angle_to_xy radius z_value seg its =
     (case seg of (start_calibrated, end_calibrated, segment_items) \<Rightarrow>
        (case Angular_position (its ! start_calibrated) of
           None \<Rightarrow> its
         | Some start_theta \<Rightarrow>
             (case Angular_position (its ! end_calibrated) of
                None \<Rightarrow> its
              | Some end_theta \<Rightarrow>
                  if \<bar>start_theta - end_theta\<bar> < 0.01 then its
                  else assign angle_to_xy radius z_value segment_items
                         (smooth (theta_values start_theta end_theta (length segment_items)))
                         its)))"

text \<open>
  Lines 16 to 87 for one step; a step without its geometric context is left as it is. The
  subscripts of lines 24, 25 and 37 (\<^verbatim>\<open>axis_center["x"]\<close>,
  \<^verbatim>\<open>axis_center["y"]\<close>, \<^verbatim>\<open>ImageNumber\<close>) raise \<^verbatim>\<open>KeyError\<close> on an
  absent key; the record types take these keys as present, so this function says nothing
  of such input.
\<close>

definition interpolate_step :: "projector \<Rightarrow> step_info \<Rightarrow> step_info" where
  "interpolate_step angle_to_xy step =
     (case axis_center step of
        None \<Rightarrow> step
      | Some center \<Rightarrow>
          (case calculated_radius step of
             None \<Rightarrow> step
           | Some radius \<Rightarrow>
               (case calculated_z step of
                  None \<Rightarrow> step
                | Some z_value \<Rightarrow>
                    (let its = sort_items (items step) in
                     step\<lparr>items :=
                       fold (interpolate_segment angle_to_xy radius z_value)
                         (uncalibrated_segments its) its\<rparr>))))"

definition interpolate_positions :: "projector \<Rightarrow> dataset \<Rightarrow> dataset" where
  "interpolate_positions angle_to_xy sequences_data =
     map (\<lambda>(step_name, step). (step_name, interpolate_step angle_to_xy step)) sequences_data"

section \<open>Step 06: orientation propagation\<close>

text \<open>
  Step 06 has no handler around its dictionary subscripts or its library calls, so each of
  them is a place where an exception leaves the script. An exception is a value.
\<close>

datatype error = KeyError | TypeError | ValueError | RuntimeError

text \<open>
  The routines of numpy and scipy that compute fits are parameters of the model:
  \<^verbatim>\<open>savgol_filter(x, window_length, polyorder)\<close>,
  \<^verbatim>\<open>curve_fit(f, xdata, ydata, p0, maxfev=5000)\<close> returning the fitted parameters,
  \<^verbatim>\<open>UnivariateSpline(x, y, k=3, s=0.5)\<close> returning the spline as a function,
  \<^verbatim>\<open>np.unwrap\<close>, and \<^verbatim>\<open>np.polyfit(x, y, 1)\<close> returning slope and intercept.
  Those that validate their arguments or may fail to converge return a sum.
\<close>

record numlib =
  savgol_filter :: "real list \<Rightarrow> nat \<Rightarrow> nat \<Rightarrow> error + real list"
  curve_fit ::
    "(real \<Rightarrow> real \<times> real \<times> real \<times> real \<Rightarrow> real) \<Rightarrow> real list \<Rightarrow> real list
       \<Rightarrow> real \<times> real \<times> real \<times> real \<Rightarrow> error + real \<times> real \<times> real \<times> real"
  UnivariateSpline :: "real list \<Rightarrow> real list \<Rightarrow> error + (real \<Rightarrow> real)"
  unwrap :: "real list \<Rightarrow> real list"
  polyfit :: "real list \<Rightarrow> real list \<Rightarrow> error + real \<times> real"

subsection \<open>Elementary numpy operations\<close>

text \<open>
  \<^verbatim>\<open>np.mean\<close> and \<^verbatim>\<open>np.std\<close> (population standard deviation). On an empty
  array numpy returns \<^verbatim>\<open>nan\<close> with a warning; the model's quotient is 0 there.
\<close>

definition mean :: "real list \<Rightarrow> real" where
  "mean values = sum_list values / real (length values)"

definition std :: "real list \<Rightarrow> real" where
  "std values = sqrt (mean (map (\<lambda>v. (v - mean values)\<^sup>2) values))"

definition radians :: "real list \<Rightarrow> real list" where
  "radians xs = map (\<lambda>d. d * pi / 180) xs"

definition degrees :: "real list \<Rightarrow> real list" where
  "degrees xs = map (\<lambda>r. r * 180 / pi) xs"

text \<open>Python's \<^verbatim>\<open>a % b\<close> on floats, for a positive \<open>b\<close>, in exact arithmetic.\<close>

definition py_mod :: "real \<Rightarrow> real \<Rightarrow> real" where
  "py_mod a b = a - b * of_int \<lfloor>a / b\<rfloor>"

text \<open>
  \<^verbatim>\<open>np.argsort\<close> (taken as stable; numpy's default sort need not be, which decides
  only which of several samples at one angle is kept), indexing an array by an index
  array, and the
  indices returned by \<^verbatim>\<open>np.unique(ar, return_index=True)\<close>: the position of the first
  occurrence of each value, in increasing order of the values.
\<close>

definition argsort :: "real list \<Rightarrow> nat list" where
  "argsort xs = sort_key (\<lambda>i. xs ! i) [0..<length xs]"

definition take_at :: "'a list \<Rightarrow> nat list \<Rightarrow> 'a list" where
  "take_at xs idx = map (\<lambda>i. xs ! i) idx"

definition unique_index :: "real list \<Rightarrow> nat list" where
  "unique_index ar =
     (let perm = argsort ar; aux = take_at ar perm
      in take_at perm (filter (\<lambda>j. j = 0 \<or> aux ! j \<noteq> aux ! (j - 1)) [0..<length aux]))"

subsection \<open>Trend fitting\<close>

definition sinusoidal :: "real \<Rightarrow> real \<times> real \<times> real \<times> real \<Rightarrow> real" where
  "sinusoidal x params = (case params of (A, B, C, D) \<Rightarrow> A * sin (B * x + C) + D)"

text \<open>Lines 7 to 27. Only \<^verbatim>\<open>RuntimeError\<close> is caught.\<close>

definition fit_sinusoidal_trend ::
  "numlib \<Rightarrow> real list \<Rightarrow> real list \<Rightarrow> error + (real \<Rightarrow> real)" where
  "fit_sinusoidal_trend lib angular_positions values =
     (if length angular_positions < 3 then Inr (\<lambda>x. mean values)
      else
        (case curve_fit lib sinusoidal angular_positions values
                (std values,
                 2 * pi / (Max (set angular_positions) - Min (set angular_positions) + 1),
                 0,
                 mean values) of
           Inr params \<Rightarrow> Inr (\<lambda>x. sinusoidal x params)
         | Inl RuntimeError \<Rightarrow> UnivariateSpline lib angular_positions values
         | Inl e \<Rightarrow> Inl e))"

text \<open>
  Lines 76 to 78, the closure over the fitted slope and intercept, in exact arithmetic.
\<close>

definition kappa_trend :: "real \<Rightarrow> real \<Rightarrow> real \<Rightarrow> real" where
  "kappa_trend kappa_slope kappa_intercept x =
     (let kappa_interp = kappa_slope * x + kappa_intercept
      in py_mod (kappa_interp + 180) 360 - 180)"

text \<open>
  \<^verbatim>\<open>[item[key] for item in sequence_items]\<close>: the subscript raises
  \<^verbatim>\<open>KeyError\<close> at the first item without the key.
\<close>

fun subscript_all :: "(image_record \<Rightarrow> real option) \<Rightarrow> image_record list \<Rightarrow> error + real list" where
  "subscript_all key [] = Inr []"
| "subscript_all key (item # rest) =
     (case key item of
        None \<Rightarrow> Inl KeyError
      | Some v \<Rightarrow>
          (case subscript_all key rest of Inl e \<Rightarrow> Inl e | Inr vs \<Rightarrow> Inr (v # vs)))"

type_synonym trends = "(real \<Rightarrow> real) \<times> (real \<Rightarrow> real) \<times> (real \<Rightarrow> real)"

text \<open>Lines 62 to 83, once the four arrays are sorted and deduplicated.\<close>

definition fit_trends ::
  "numlib \<Rightarrow> real list \<Rightarrow> real list \<Rightarrow> real list \<Rightarrow> real list \<Rightarrow> error + trends option" where
  "fit_trends lib angular_positions omega_values phi_values kappa_values =
     (let window_size =
            (if length angular_positions > 3 then min 11 (length angular_positions)
             else length angular_positions);
          poly_order = (if window_size > 3 then 3 else 1)
      in case savgol_filter lib omega_values window_size poly_order of
           Inl e \<Rightarrow> Inl e
         | Inr omega_values_smooth \<Rightarrow>
        (case savgol_filter lib phi_values window_size poly_order of
           Inl e \<Rightarrow> Inl e
         | Inr phi_values_smooth \<Rightarrow>
        (case polyfit lib angular_positions (degrees (unwrap lib (radians kappa_values))) of
           Inl e \<Rightarrow> Inl e
         | Inr (kappa_slope, kappa_intercept) \<Rightarrow>
        (case fit_sinusoidal_trend lib angular_positions omega_values_smooth of
           Inl e \<Rightarrow> Inl e
         | Inr omega_trend \<Rightarrow>
        (case fit_sinusoidal_trend lib angular_positions phi_values_smooth of
           Inl e \<Rightarrow> Inl e
         | Inr phi_trend \<Rightarrow>
             Inr (Some (omega_trend, phi_trend, kappa_trend kappa_slope kappa_intercept)))))))"

text \<open>Lines 36 to 60, then the fit. \<open>None\<close> is the early \<^verbatim>\<open>return None\<close>.\<close>

definition compute_sinusoidal_offsets ::
  "numlib \<Rightarrow> image_record list \<Rightarrow> error + trends option" where
  "compute_sinusoidal_offsets lib sequence_items =
     (if length sequence_items < 3 then Inr None
      else
        case subscript_all Angular_position sequence_items of
          Inl e \<Rightarrow> Inl e
        | Inr angular_positions \<Rightarrow>
       (case subscript_all Omega sequence_items of
          Inl e \<Rightarrow> Inl e
        | Inr omega_values \<Rightarrow>
       (case subscript_all Phi sequence_items of
          Inl e \<Rightarrow> Inl e
        | Inr phi_values \<Rightarrow>
       (case subscript_all Kappa sequence_items of
          Inl e \<Rightarrow> Inl e
        | Inr kappa_values \<Rightarrow>
            (let sorted_indices = argsort angular_positions;
                 angular_positions = take_at angular_positions sorted_indices;
                 omega_values = take_at omega_values sorted_indices;
                 phi_values = take_at phi_values sorted_indices;
                 kappa_values = take_at kappa_values sorted_indices;
                 unique_indices = unique_index angular_positions
             in fit_trends lib
                  (take_at angular_positions unique_indices)
                  (take_at omega_values unique_indices)
                  (take_at phi_values unique_indices)
                  (take_at kappa_values unique_indices))))))"

subsection \<open>Correction\<close>

text \<open>Lines 92 to 95: the three assignments to one item, at its angular position \<open>x\<close>.\<close>

definition set_orientation :: "trends \<Rightarrow> real \<Rightarrow> image_record \<Rightarrow> image_record" where
  "set_orientation tr x item =
     (case tr of (omega_t, phi_t, kappa_t) \<Rightarrow>
        item\<lparr>Omega := Some (omega_t x), Phi := Some (phi_t x),
             Kappa := Some (kappa_t x)\<rparr>)"

text \<open>
  Lines 86 to 95. The items of a sequence are the dictionaries of the step's item list, so
  \<open>sequence_items\<close> is a list of positions in that list, and the item list is passed
  and returned.
\<close>

fun apply_orientation_correction ::
  "nat list \<Rightarrow> (real \<Rightarrow> real) \<Rightarrow> (real \<Rightarrow> real) \<Rightarrow> (real \<Rightarrow> real) \<Rightarrow> image_record list
     \<Rightarrow> error + image_record list"
where
  "apply_orientation_correction [] omega_t phi_t kappa_t its = Inr its"
| "apply_orientation_correction (i # sequence_items) omega_t phi_t kappa_t its =
     (if Calibration_Status (its ! i) = visually_calibrated
         \<or> Calibration_Status (its ! i) = estimated then
        (case Angular_position (its ! i) of
           None \<Rightarrow> Inl KeyError
         | Some x \<Rightarrow>
             apply_orientation_correction sequence_items omega_t phi_t kappa_t
               (its[i := set_orientation (omega_t, phi_t, kappa_t) x (its ! i)]))
      else apply_orientation_correction sequence_items omega_t phi_t kappa_t its)"

subsection \<open>Grouping by sequence and the loop over sequences\<close>

definition seq_id :: "image_record \<Rightarrow> string" where
  "seq_id item = (case Sequence item of None \<Rightarrow> ''Unknown'' | Some s \<Rightarrow> s)"

text \<open>
  Lines 109 to 113: the dictionary \<open>sequences\<close>, in insertion order, from sequence
  identifier to the positions of its items.
\<close>

fun group_insert :: "string \<Rightarrow> nat \<Rightarrow> (string \<times> nat list) list \<Rightarrow> (string \<times> nat list) list" where
  "group_insert k i [] = [(k, [i])]"
| "group_insert k i ((k', idxs) # rest) =
     (if k = k' then (k', idxs @ [i]) # rest else (k', idxs) # group_insert k i rest)"

definition group_sequences :: "image_record list \<Rightarrow> (string \<times> nat list) list" where
  "group_sequences its =
     fold (\<lambda>(i, item) sequences. group_insert (seq_id item) i sequences) (enumerate 0 its) []"

text \<open>
  Lines 116 to 122. Unpacking the result \<^verbatim>\<open>None\<close> of
  \<^verbatim>\<open>compute_sinusoidal_offsets\<close> into three names would raise \<^verbatim>\<open>TypeError\<close>.
\<close>

fun process_sequences ::
  "numlib \<Rightarrow> (string \<times> nat list) list \<Rightarrow> image_record list \<Rightarrow> error + image_record list" where
  "process_sequences lib [] its = Inr its"
| "process_sequences lib ((sid, sequence_items) # rest) its =
     (let originals = filter (\<lambda>it. Calibration_Status it = original) (take_at its sequence_items)
      in if length originals < 3 then process_sequences lib rest its
         else
           (case compute_sinusoidal_offsets lib originals of
              Inl e \<Rightarrow> Inl e
            | Inr None \<Rightarrow> Inl TypeError
            | Inr (Some (omega_t, phi_t, kappa_t)) \<Rightarrow>
                (case apply_orientation_correction sequence_items
                        omega_t phi_t kappa_t its of
                   Inl e \<Rightarrow> Inl e
                 | Inr its' \<Rightarrow> process_sequences lib rest its')))"

definition propagate_step :: "numlib \<Rightarrow> step_info \<Rightarrow> error + step_info" where
  "propagate_step lib info =
     (case process_sequences lib (group_sequences (items info)) (items info) of
        Inl e \<Rightarrow> Inl e
      | Inr its \<Rightarrow> Inr (info\<lparr>items := its\<rparr>))"

text \<open>
  Lines 104 to 122, the loop over the steps; an exception in a step ends the run before
  the output file is written. The serialisation of line 125 is not part of the model
  (\<^verbatim>\<open>json.dump\<close> raises \<^verbatim>\<open>TypeError\<close> on a value that is not a plain
  number, as the arrays a spline returns), so \<open>Inr\<close> means that the loop went
  through, not that the file was written.
\<close>

fun propagate_orientation :: "numlib \<Rightarrow> dataset \<Rightarrow> error + dataset" where
  "propagate_orientation lib [] = Inr []"
| "propagate_orientation lib ((step, info) # rest) =
     (case propagate_step lib info of
        Inl e \<Rightarrow> Inl e
      | Inr info' \<Rightarrow>
          (case propagate_orientation lib rest of
             Inl e \<Rightarrow> Inl e
           | Inr rest' \<Rightarrow> Inr ((step, info') # rest')))"

section \<open>The interpolator without the smoothing pass\<close>

text \<open>
  The same three functions with lines 70 to 72 left out, for comparison with the
  interpolator of the source.
\<close>

definition interpolate_segment_without_smoothing ::
  "projector \<Rightarrow> real \<Rightarrow> real \<Rightarrow> segment \<Rightarrow> image_record list \<Rightarrow> image_record list" where
  "interpolate_segment_without_smoothing angle_to_xy radius z_value seg its =
     (case seg of (start_calibrated, end_calibrated, segment_items) \<Rightarrow>
        (case Angular_position (its ! start_calibrated) of
           None \<Rightarrow> its
         | Some start_theta \<Rightarrow>
             (case Angular_position (its ! end_calibrated) of
                None \<Rightarrow> its
              | Some end_theta \<Rightarrow>
                  if \<bar>start_theta - end_theta\<bar> < 0.01 then its
                  else assign angle_to_xy radius z_value segment_items
                         (theta_values start_theta end_theta (length segment_items))
                         its)))"

definition interpolate_step_without_smoothing :: "projector \<Rightarrow> step_info \<Rightarrow> step_info" where
  "interpolate_step_without_smoothing angle_to_xy step =
     (case axis_center step of
        None \<Rightarrow> step
      | Some center \<Rightarrow>
          (case calculated_radius step of
             None \<Rightarrow> step
           | Some radius \<Rightarrow>
               (case calculated_z step of
                  None \<Rightarrow> step
                | Some z_value \<Rightarrow>
                    (let its = sort_items (items step) in
                     step\<lparr>items :=
                       fold (interpolate_segment_without_smoothing angle_to_xy radius z_value)
                         (uncalibrated_segments its) its\<rparr>))))"

definition interpolate_positions_without_smoothing :: "projector \<Rightarrow> dataset \<Rightarrow> dataset" where
  "interpolate_positions_without_smoothing angle_to_xy sequences_data =
     map (\<lambda>(step_name, step). (step_name, interpolate_step_without_smoothing angle_to_xy step))
       sequences_data"

section \<open>Notions used in the statements\<close>

text \<open>An anchor is an item of status original or visually calibrated.\<close>

definition is_anchor :: "image_record \<Rightarrow> bool" where
  "is_anchor item =
     (Calibration_Status item = original \<or> Calibration_Status item = visually_calibrated)"

text \<open>The items the corrector rewrites (line 91).\<close>

definition needs_correction :: "image_record \<Rightarrow> bool" where
  "needs_correction item =
     (Calibration_Status item = visually_calibrated \<or> Calibration_Status item = estimated)"

text \<open>All run positions of a list of segments, and what the scan guarantees of a segment.\<close>

definition runs_of :: "segment list \<Rightarrow> nat list" where
  "runs_of segs = concat (map (\<lambda>(p, e, run). run) segs)"

definition segment_ok :: "image_record list \<Rightarrow> segment \<Rightarrow> bool" where
  "segment_ok its seg = (case seg of (p, e, run) \<Rightarrow>
     p < length its \<and> e < length its \<and> is_anchor (its ! p) \<and> is_anchor (its ! e) \<and> run \<noteq> [] \<and>
     list_all (\<lambda>i. i < length its \<and> Calibration_Status (its ! i) = uncalibrated) run)"

text \<open>
  The check of line 20, and the order in which step 05 leaves the items of a step: sorted
  when the step has its context, untouched otherwise.
\<close>

definition has_context :: "step_info \<Rightarrow> bool" where
  "has_context step =
     (axis_center step \<noteq> None \<and> calculated_radius step \<noteq> None \<and> calculated_z step \<noteq> None)"

definition scan_order :: "step_info \<Rightarrow> image_record list" where
  "scan_order step = (if has_context step then sort_items (items step) else items step)"

text \<open>The status of an item before and after: unchanged, or uncalibrated to estimated.\<close>

definition status_step :: "image_record \<Rightarrow> image_record \<Rightarrow> bool" where
  "status_step before after =
     (Calibration_Status after = Calibration_Status before
      \<or> (Calibration_Status before = uncalibrated \<and> Calibration_Status after = estimated))"

definition same_status :: "image_record \<Rightarrow> image_record \<Rightarrow> bool" where
  "same_status before after = (Calibration_Status after = Calibration_Status before)"

text \<open>
  The positions of the items of a sequence, and the originals among them: the list
  \<open>originals\<close> of line 117 for that sequence.
\<close>

definition positions_of :: "image_record list \<Rightarrow> string \<Rightarrow> nat list" where
  "positions_of its sid = filter (\<lambda>i. seq_id (its ! i) = sid) [0..<length its]"

definition sequence_originals :: "image_record list \<Rightarrow> string \<Rightarrow> image_record list" where
  "sequence_originals its sid =
     filter (\<lambda>it. Calibration_Status it = original) (take_at its (positions_of its sid))"

text \<open>
  What step 06 does to the item at position \<open>j\<close> when the sequences \<open>sids\<close> are
  processed: corrected with the trends fitted to the originals of its sequence when the
  item is visually calibrated or estimated and its sequence has at least three originals,
  unchanged otherwise.
\<close>

definition corrected_in ::
  "numlib \<Rightarrow> string set \<Rightarrow> image_record list \<Rightarrow> image_record list \<Rightarrow> nat \<Rightarrow> bool" where
  "corrected_in lib sids its its' j =
     (if seq_id (its ! j) \<in> sids \<and> needs_correction (its ! j)
         \<and> 3 \<le> length (sequence_originals its (seq_id (its ! j)))
      then \<exists>omega_t phi_t kappa_t x.
             compute_sinusoidal_offsets lib (sequence_originals its (seq_id (its ! j)))
               = Inr (Some (omega_t, phi_t, kappa_t))
           \<and> Angular_position (its ! j) = Some x
           \<and> its' ! j = set_orientation (omega_t, phi_t, kappa_t) x (its ! j)
      else its' ! j = its ! j)"

section \<open>Step 05 with the library's smoothing filter\<close>

text \<open>
  The smoothing of lines 70 to 72 with \<^verbatim>\<open>scipy.signal.savgol_filter\<close> as a
  parameter: \<open>savgol v w p\<close> is what the library returns for
  \<^verbatim>\<open>savgol_filter(v, w, p)\<close>, computed in double arithmetic. With the exact filter
  \<^const>\<open>savgol_filter_3_2\<close> for the parameter these are \<^const>\<open>smooth\<close>,
  \<^const>\<open>interpolate_segment\<close> and \<^const>\<open>interpolate_step\<close>.
\<close>

definition smooth_with :: "(real list \<Rightarrow> nat \<Rightarrow> nat \<Rightarrow> real list) \<Rightarrow> real list \<Rightarrow> real list" where
  "smooth_with savgol thetas =
     (if 3 \<le> length thetas then savgol thetas (min (length thetas) 3) 2 else thetas)"

definition interpolate_segment_with ::
  "(real list \<Rightarrow> nat \<Rightarrow> nat \<Rightarrow> real list) \<Rightarrow> projector \<Rightarrow> real \<Rightarrow> real \<Rightarrow> segment
     \<Rightarrow> image_record list \<Rightarrow> image_record list" where
  "interpolate_segment_with savgol angle_to_xy radius z_value seg its =
     (case seg of (start_calibrated, end_calibrated, segment_items) \<Rightarrow>
        (case Angular_position (its ! start_calibrated) of
           None \<Rightarrow> its
         | Some start_theta \<Rightarrow>
             (case Angular_position (its ! end_calibrated) of
                None \<Rightarrow> its
              | Some end_theta \<Rightarrow>
                  if \<bar>start_theta - end_theta\<bar> < 0.01 then its
                  else assign angle_to_xy radius z_value segment_items
                         (smooth_with savgol
                            (theta_values start_theta end_theta (length segment_items)))
                         its)))"

definition interpolate_step_with ::
  "(real list \<Rightarrow> nat \<Rightarrow> nat \<Rightarrow> real list) \<Rightarrow> projector \<Rightarrow> step_info \<Rightarrow> step_info" where
  "interpolate_step_with savgol angle_to_xy step =
     (case axis_center step of
        None \<Rightarrow> step
      | Some center \<Rightarrow>
          (case calculated_radius step of
             None \<Rightarrow> step
           | Some radius \<Rightarrow>
               (case calculated_z step of
                  None \<Rightarrow> step
                | Some z_value \<Rightarrow>
                    (let its = sort_items (items step) in
                     step\<lparr>items :=
                       fold (interpolate_segment_with savgol angle_to_xy radius z_value)
                         (uncalibrated_segments its) its\<rparr>))))"

section \<open>Double arithmetic\<close>

text \<open>
  Python's floats are IEEE 754 doubles. Where a statement turns on a rounding, an
  operation is its exact result rounded to the nearest double, ties to even: 53
  significant bits, least exponent -1022 (below it the spacing stays that of the
  subnormals), and no greatest exponent (overflow to infinity is left out).
  \<open>ulp x\<close> is the spacing of the doubles around \<open>x\<close>.
\<close>

definition expo :: "real \<Rightarrow> int" where
  "expo x = max \<lfloor>log 2 \<bar>x\<bar>\<rfloor> (- 1022)"

definition ulp :: "real \<Rightarrow> real" where
  "ulp x = 2 powr (of_int (expo x) - 52)"

definition round_half_even :: "real \<Rightarrow> int" where
  "round_half_even y =
     (let f = \<lfloor>y\<rfloor>; d = y - of_int f
      in if d < 1 / 2 then f else if 1 / 2 < d then f + 1 else if even f then f else f + 1)"

definition round_double :: "real \<Rightarrow> real" where
  "round_double x = (if x = 0 then 0 else of_int (round_half_even (x / ulp x)) * ulp x)"

text \<open>
  C's \<^verbatim>\<open>fmod\<close> (the remainder has the sign of the dividend and is exact), and
  Python's \<^verbatim>\<open>%\<close> on floats, which is
  \<^verbatim>\<open>mod = fmod(vx, wx); if mod and ((wx < 0) != (mod < 0)): mod += wx\<close>:
  the addition rounds.
\<close>

definition fmod :: "real \<Rightarrow> real \<Rightarrow> real" where
  "fmod a b = a - b * of_int (if 0 \<le> a / b then \<lfloor>a / b\<rfloor> else \<lceil>a / b\<rceil>)"

definition float_mod :: "real \<Rightarrow> real \<Rightarrow> real" where
  "float_mod a b =
     (let m = fmod a b
      in if m \<noteq> 0 \<and> (b < 0) \<noteq> (m < 0) then round_double (m + b) else m)"

text \<open>Lines 76 to 78 in double arithmetic: every operation rounds.\<close>

definition kappa_trend_float :: "real \<Rightarrow> real \<Rightarrow> real \<Rightarrow> real" where
  "kappa_trend_float kappa_slope kappa_intercept x =
     (let kappa_interp = round_double (round_double (kappa_slope * x) + kappa_intercept)
      in round_double (float_mod (round_double (kappa_interp + 180)) 360 - 180))"

section \<open>Example data\<close>

text \<open>
  A library instance in which every routine returns: no smoothing, the seed as the fitted
  parameters, the mean as the spline, no unwrapping, a constant line.
\<close>

definition example_lib :: numlib where
  "example_lib =
     \<lparr>savgol_filter = (\<lambda>xs w p. Inr xs),
      curve_fit = (\<lambda>f xs ys p0. Inr p0),
      UnivariateSpline = (\<lambda>xs ys. Inr (\<lambda>x. mean ys)),
      unwrap = (\<lambda>xs. xs),
      polyfit = (\<lambda>xs ys. Inr (0, mean ys))\<rparr>"

text \<open>
  The same with the argument check of \<^verbatim>\<open>scipy.signal.savgol_filter\<close>, which
  raises \<^verbatim>\<open>ValueError\<close> unless \<open>polyorder < window_length\<close>.
\<close>

definition strict_lib :: numlib where
  "strict_lib =
     example_lib\<lparr>savgol_filter := (\<lambda>xs w p. if w \<le> p then Inl ValueError else Inr xs)\<rparr>"


definition circle_xy :: projector where
  "circle_xy angle radius = (radius * cos angle, radius * sin angle, 0)"

definition example_item ::
  "int \<Rightarrow> string \<Rightarrow> calibration_status \<Rightarrow> real option \<Rightarrow> image_record" where
  "example_item n sid status angle =
     \<lparr>ImageNumber = n, parsed_ts = None, Sequence = Some sid, Calibration_Status = status,
      Angular_position = angle, Omega = Some 1, Phi = Some 2, Kappa = Some 3,
      X = None, Y = None, Z = None\<rparr>"

definition example_step :: "image_record list \<Rightarrow> step_info" where
  "example_step its =
     \<lparr>items = its, axis_center = Some (0, 0), calculated_radius = Some 10,
      calculated_z = Some 5\<rparr>"


text \<open>An uncalibrated item before the first anchor, one between the two anchors.\<close>

definition leading_items :: "image_record list" where
  "leading_items =
     [example_item 1 ''A'' uncalibrated None,
      example_item 2 ''A'' original (Some 10),
      example_item 3 ''A'' uncalibrated None,
      example_item 4 ''A'' original (Some 50)]"

text \<open>
  Sequence A with three originals, sequence B with two, and in each a visually calibrated
  item whose Omega differs from that of the originals.
\<close>

definition two_sequence_items :: "image_record list" where
  "two_sequence_items =
     [example_item 1 ''A'' original (Some 0),
      (example_item 2 ''A'' visually_calibrated (Some 45))\<lparr>Omega := Some 7\<rparr>,
      example_item 3 ''A'' original (Some 90),
      example_item 4 ''B'' original (Some 10),
      (example_item 5 ''B'' visually_calibrated (Some 30))\<lparr>Omega := Some 9\<rparr>,
      example_item 6 ''A'' original (Some 180),
      example_item 7 ''B'' original (Some 50)]"



section \<open>Lemmas: step 05\<close>

subsection \<open>Angles and smoothing\<close>







lemma quadratic_fit_normal_equations:
  "quadratic_fit y0 y1 y2 = (c0, c1, c2) \<Longrightarrow>
     3 * c0 + 2 * c2 = y0 + y1 + y2 \<and> 2 * c1 = y2 - y0 \<and> 2 * c0 + 2 * c2 = y0 + y2"
  by (auto simp: quadratic_fit_def)

lemma savgol_id: "3 \<le> length xs \<Longrightarrow> savgol_filter_3_2 xs = xs"
  by (auto simp: savgol_filter_3_2_def polyval_def quadratic_fit_def Let_def field_simps intro!: nth_equalityI)

lemma smooth_id: "smooth thetas = thetas"
  by (simp add: smooth_def savgol_id)

lemma length_theta_values: "length (theta_values a b n) = n"
  by (simp add: theta_values_def interior_def linspace_def)

subsection \<open>Assignments to a run\<close>

lemma length_assign [simp]:
  "length (assign f r z run thetas its) = length its"
  by (induction f r z run thetas its rule: assign.induct) simp_all



lemma status_set_estimated [simp]:
  "Calibration_Status (set_estimated f r z th it) = estimated"
  by (simp add: set_estimated_def split: prod.splits)

lemma assign_status:
  "j < length its \<Longrightarrow>
   Calibration_Status (assign f r z run thetas its ! j) = Calibration_Status (its ! j)
   \<or> (j \<in> set run \<and> Calibration_Status (assign f r z run thetas its ! j) = estimated)"
proof (induction f r z run thetas its rule: assign.induct)
  case (1 f r z i run theta thetas its)
  then show ?case
    by (cases "j = i") (auto simp: nth_list_update)
qed simp_all

subsection \<open>What the scan returns\<close>

lemma runs_of_simps [simp]:
  "runs_of [] = []" "runs_of ((p, e, run) # segs) = run @ runs_of segs"
  by (simp_all add: runs_of_def)

lemma scan_props:
  assumes "drop m its = xs"
    and "\<forall>i \<in> set cur. i < m \<and> Calibration_Status (its ! i) = uncalibrated"
    and "distinct cur"
    and "\<forall>p. prev = Some p \<longrightarrow> p < m \<and> is_anchor (its ! p)"
  shows "list_all (segment_ok its) (scan (enumerate m xs) prev cur)
       \<and> distinct (runs_of (scan (enumerate m xs) prev cur))
       \<and> set (runs_of (scan (enumerate m xs) prev cur)) \<subseteq> set cur \<union> {m..<length its}"
  using assms
proof (induction xs arbitrary: m prev cur)
  case Nil
  then show ?case by simp
next
  case (Cons x rest)
  from Cons.prems(1) have m: "m < length its"
    by (metis drop_eq_Nil list.distinct(1) not_le)
  from Cons.prems(1) m have x: "its ! m = x" and rest: "drop (Suc m) its = rest"
    by (simp_all add: Cons_nth_drop_Suc[symmetric])
  have cur': "\<forall>i \<in> set cur. i < Suc m \<and> Calibration_Status (its ! i) = uncalibrated"
    using Cons.prems(2) by auto
  show ?case
  proof (cases "is_anchor x")
    case anchor: True
    have prev': "\<forall>p. Some m = Some p \<longrightarrow> p < Suc m \<and> is_anchor (its ! p)"
      using anchor x by simp
    show ?thesis
    proof (cases "prev \<noteq> None \<and> cur \<noteq> []")
      case True
      then obtain p where p: "prev = Some p" by auto
      have ih: "list_all (segment_ok its) (scan (enumerate (Suc m) rest) (Some m) [])
         \<and> distinct (runs_of (scan (enumerate (Suc m) rest) (Some m) []))
         \<and> set (runs_of (scan (enumerate (Suc m) rest) (Some m) [])) \<subseteq> set [] \<union> {Suc m..<length its}"
        by (rule Cons.IH[OF rest _ _ prev']) simp_all
      have ok: "segment_ok its (p, m, cur)"
        using Cons.prems(2,4) p True m anchor x
        by (auto simp: segment_ok_def list_all_iff)
      have disj: "set cur \<inter> set (runs_of (scan (enumerate (Suc m) rest) (Some m) [])) = {}"
        using ih Cons.prems(2) by fastforce
      have eq: "scan (enumerate m (x # rest)) prev cur
          = (p, m, cur) # scan (enumerate (Suc m) rest) (Some m) []"
        using anchor True p by (simp add: is_anchor_def)
      show ?thesis
        unfolding eq using ih ok disj Cons.prems(3) by auto
    next
      case False
      have eq: "scan (enumerate m (x # rest)) prev cur = scan (enumerate (Suc m) rest) (Some m) cur"
        using anchor False by (auto simp: is_anchor_def split: option.splits)
      have ih: "list_all (segment_ok its) (scan (enumerate (Suc m) rest) (Some m) cur)
         \<and> distinct (runs_of (scan (enumerate (Suc m) rest) (Some m) cur))
         \<and> set (runs_of (scan (enumerate (Suc m) rest) (Some m) cur)) \<subseteq> set cur \<union> {Suc m..<length its}"
        by (rule Cons.IH[OF rest cur' Cons.prems(3) prev'])
      show ?thesis unfolding eq using ih by auto
    qed
  next
    case noanchor: False
    have prev': "\<forall>p. prev = Some p \<longrightarrow> p < Suc m \<and> is_anchor (its ! p)"
      using Cons.prems(4) by auto
    show ?thesis
    proof (cases "Calibration_Status x = uncalibrated")
      case True
      have eq: "scan (enumerate m (x # rest)) prev cur = scan (enumerate (Suc m) rest) prev (cur @ [m])"
        using noanchor True by (simp add: is_anchor_def)
      have c2: "\<forall>i \<in> set (cur @ [m]). i < Suc m \<and> Calibration_Status (its ! i) = uncalibrated"
        using cur' True x by auto
      have d2: "distinct (cur @ [m])" using Cons.prems(2,3) by auto
      have ih: "list_all (segment_ok its) (scan (enumerate (Suc m) rest) prev (cur @ [m]))
         \<and> distinct (runs_of (scan (enumerate (Suc m) rest) prev (cur @ [m])))
         \<and> set (runs_of (scan (enumerate (Suc m) rest) prev (cur @ [m]))) \<subseteq> set (cur @ [m]) \<union> {Suc m..<length its}"
        by (rule Cons.IH[OF rest c2 d2 prev'])
      show ?thesis unfolding eq using ih m by auto
    next
      case False
      have eq: "scan (enumerate m (x # rest)) prev cur = scan (enumerate (Suc m) rest) prev cur"
        using noanchor False by (simp add: is_anchor_def)
      have ih: "list_all (segment_ok its) (scan (enumerate (Suc m) rest) prev cur)
         \<and> distinct (runs_of (scan (enumerate (Suc m) rest) prev cur))
         \<and> set (runs_of (scan (enumerate (Suc m) rest) prev cur)) \<subseteq> set cur \<union> {Suc m..<length its}"
        by (rule Cons.IH[OF rest cur' Cons.prems(3) prev'])
      show ?thesis unfolding eq using ih by auto
    qed
  qed
qed

lemma uncalibrated_segments_ok:
  "list_all (segment_ok its) (uncalibrated_segments its)"
  "distinct (runs_of (uncalibrated_segments its))"
  using scan_props[of 0 its its "[]" None] by (simp_all add: uncalibrated_segments_def)

lemma runs_are_uncalibrated:
  "list_all (segment_ok its) segs \<Longrightarrow> j \<in> set (runs_of segs) \<Longrightarrow>
   j < length its \<and> Calibration_Status (its ! j) = uncalibrated"
  by (auto simp: runs_of_def segment_ok_def list_all_iff)


subsection \<open>One segment, then all of them\<close>

lemma length_interpolate_segment [simp]:
  "length (interpolate_segment f r z seg its) = length its"
  by (simp add: interpolate_segment_def split: prod.splits option.splits)




lemma interpolate_segment_status:
  "j < length its \<Longrightarrow>
   Calibration_Status (interpolate_segment f r z (p, e, run) its ! j) = Calibration_Status (its ! j)
   \<or> (j \<in> set run \<and> Calibration_Status (interpolate_segment f r z (p, e, run) its ! j) = estimated)"
  using assign_status[of j its f r z run]
  by (simp add: interpolate_segment_def split: option.splits)


lemma length_fold_segments [simp]:
  "length (fold (interpolate_segment f r z) segs its) = length its"
  by (induction segs arbitrary: its) simp_all



lemma fold_segments_status:
  "j < length its \<Longrightarrow>
   Calibration_Status (fold (interpolate_segment f r z) segs its ! j) = Calibration_Status (its ! j)
   \<or> (j \<in> set (runs_of segs)
      \<and> Calibration_Status (fold (interpolate_segment f r z) segs its ! j) = estimated)"
proof (induction segs arbitrary: its)
  case Nil
  then show ?case by simp
next
  case (Cons seg segs)
  obtain p e run where seg: "seg = (p, e, run)" by (cases seg) auto
  let ?its1 = "interpolate_segment f r z (p, e, run) its"
  from Cons.prems have j1: "j < length ?its1" by simp
  from Cons.IH[OF j1] interpolate_segment_status[OF Cons.prems, of f r z p e run] seg
  show ?case by auto
qed

subsection \<open>The step, and the interpolator without smoothing\<close>

lemma without_smoothing_segment:
  "interpolate_segment_without_smoothing f r z seg its = interpolate_segment f r z seg its"
  by (simp add: interpolate_segment_without_smoothing_def interpolate_segment_def smooth_id
      split: prod.splits option.splits)

lemma without_smoothing_step:
  "interpolate_step_without_smoothing f step = interpolate_step f step"
proof -
  have "interpolate_segment_without_smoothing f r z = interpolate_segment f r z" for r z
    by (intro ext) (rule without_smoothing_segment)
  then show ?thesis
    by (simp add: interpolate_step_without_smoothing_def interpolate_step_def
        split: option.splits)
qed

lemma without_smoothing_positions:
  "interpolate_positions_without_smoothing f d = interpolate_positions f d"
  by (simp add: interpolate_positions_without_smoothing_def interpolate_positions_def
      without_smoothing_step)

lemma interpolate_step_items:
  assumes "axis_center step = Some center" "calculated_radius step = Some radius"
    "calculated_z step = Some z_value"
  shows "items (interpolate_step f step)
         = fold (interpolate_segment f radius z_value)
             (uncalibrated_segments (sort_items (items step))) (sort_items (items step))"
  using assms by (simp add: interpolate_step_def Let_def)



subsection \<open>The examples of step 05\<close>

lemmas example_defs = example_step_def example_item_def


lemma sort_leading: "sort_items leading_items = leading_items"
  by (simp add: sort_items_def leading_items_def example_defs item_key_def ts_key_def)


lemma segs_leading: "uncalibrated_segments leading_items = [(1, 3, [0, 2])]"
  by (simp add: uncalibrated_segments_def leading_items_def example_defs enumerate_eq_zip upt_conv_Cons)

subsection \<open>Statuses through step 05\<close>

lemma interpolate_step_no_context:
  "\<not> has_context step \<Longrightarrow> interpolate_step f step = step"
  by (auto simp: has_context_def interpolate_step_def split: option.splits)

lemma status_step_refl [simp]: "status_step a a"
  by (simp add: status_step_def)

lemma interpolate_step_status:
  "list_all2 status_step (scan_order step) (items (interpolate_step f step))"
proof (cases "has_context step")
  case False
  then show ?thesis
    by (simp add: scan_order_def interpolate_step_no_context list_all2_conv_all_nth)
next
  case True
  then obtain center radius z_value where ctx: "axis_center step = Some center"
      "calculated_radius step = Some radius" "calculated_z step = Some z_value"
    by (auto simp: has_context_def)
  let ?its = "sort_items (items step)"
  let ?segs = "uncalibrated_segments ?its"
  have ok: "list_all (segment_ok ?its) ?segs" by (rule uncalibrated_segments_ok)
  have "status_step (?its ! j) (fold (interpolate_segment f radius z_value) ?segs ?its ! j)"
    if j: "j < length ?its" for j
    using fold_segments_status[OF j, of f radius z_value ?segs] runs_are_uncalibrated[OF ok, of j]
    by (auto simp: status_step_def)
  then show ?thesis
    using True by (simp add: scan_order_def interpolate_step_items[OF ctx] list_all2_conv_all_nth)
qed

lemma mset_scan_order: "mset (scan_order step) = mset (items step)"
  by (simp add: scan_order_def sort_items_def)

lemma interpolate_positions_status:
  "list_all2 (\<lambda>(name, step) (name', step').
       name' = name \<and> mset (scan_order step) = mset (items step)
       \<and> list_all2 status_step (scan_order step) (items step'))
     d (interpolate_positions f d)"
  by (induction d) (auto simp: interpolate_positions_def interpolate_step_status mset_scan_order)


subsection \<open>Skipped steps and segments\<close>



subsection \<open>Step 05 with the library's filter\<close>

lemma smooth_with_exact: "smooth_with (\<lambda>v w p. savgol_filter_3_2 v) = smooth"
  by (intro ext) (simp add: smooth_with_def smooth_def)

lemma interpolate_segment_with_exact:
  "interpolate_segment_with (\<lambda>v w p. savgol_filter_3_2 v) = interpolate_segment"
  by (intro ext)
     (simp add: interpolate_segment_with_def interpolate_segment_def smooth_with_exact
        split: prod.splits option.splits)

lemma interpolate_step_with_exact:
  "interpolate_step_with (\<lambda>v w p. savgol_filter_3_2 v) = interpolate_step"
  by (intro ext)
     (simp add: interpolate_step_with_def interpolate_step_def interpolate_segment_with_exact
        split: option.splits)


lemma length_interpolate_segment_with [simp]:
  "length (interpolate_segment_with sg f r z seg its) = length its"
  by (simp add: interpolate_segment_with_def split: prod.splits option.splits)





lemma length_fold_segments_with [simp]:
  "length (fold (interpolate_segment_with sg f r z) segs its) = length its"
  by (induction segs arbitrary: its) simp_all





section \<open>Lemmas: step 06\<close>

subsection \<open>The wrap of kappa\<close>

lemma py_mod_range: "0 < b \<Longrightarrow> 0 \<le> py_mod a b \<and> py_mod a b < b"
proof -
  assume b: "0 < b"
  have ab: "b * (a / b) = a" using b by simp
  have lo: "of_int \<lfloor>a / b\<rfloor> \<le> a / b" by (rule of_int_floor_le)
  have hi: "a / b < of_int \<lfloor>a / b\<rfloor> + 1" by linarith
  have "b * of_int \<lfloor>a / b\<rfloor> \<le> b * (a / b)"
    using lo b by (intro mult_left_mono) simp_all
  moreover have "b * (a / b) < b * (of_int \<lfloor>a / b\<rfloor> + 1)"
    using hi b by (intro mult_strict_left_mono) simp_all
  ultimately show ?thesis unfolding ab by (simp add: py_mod_def algebra_simps)
qed

subsection \<open>The corrector\<close>

lemma set_orientation_keeps [simp]:
  "Calibration_Status (set_orientation tr x it) = Calibration_Status it"
  "Angular_position (set_orientation tr x it) = Angular_position it"
  "Sequence (set_orientation tr x it) = Sequence it"
  by (simp_all add: set_orientation_def split: prod.splits)

lemma set_orientation_idem [simp]:
  "set_orientation tr x (set_orientation tr x it) = set_orientation tr x it"
  by (simp add: set_orientation_def split: prod.splits)

lemma seq_id_set_orientation [simp]: "seq_id (set_orientation tr x it) = seq_id it"
  by (simp add: seq_id_def)

lemma apply_length:
  "apply_orientation_correction idxs ot pt kt its = Inr its' \<Longrightarrow> length its' = length its"
  by (induction idxs ot pt kt its rule: apply_orientation_correction.induct)
     (auto split: if_splits option.splits)

lemma apply_char:
  assumes "apply_orientation_correction idxs ot pt kt its = Inr its'"
    and "\<forall>i \<in> set idxs. i < length its" "j < length its"
  shows "if j \<in> set idxs \<and> needs_correction (its ! j)
         then \<exists>x. Angular_position (its ! j) = Some x
                  \<and> its' ! j = set_orientation (ot, pt, kt) x (its ! j)
         else its' ! j = its ! j"
  using assms
proof (induction idxs ot pt kt its rule: apply_orientation_correction.induct)
  case (1 ot pt kt its)
  then show ?case by simp
next
  case (2 i idxs ot pt kt its)
  show ?case
  proof (cases "needs_correction (its ! i)")
    case False
    with 2 show ?thesis by (auto simp: needs_correction_def)
  next
    case True
    with "2.prems"(1) obtain x where x: "Angular_position (its ! i) = Some x"
      by (cases "Angular_position (its ! i)") (auto simp: needs_correction_def)
    let ?its1 = "its[i := set_orientation (ot, pt, kt) x (its ! i)]"
    from "2.prems"(1) True x
    have run: "apply_orientation_correction idxs ot pt kt ?its1 = Inr its'"
      by (auto simp: needs_correction_def)
    have ih: "if j \<in> set idxs \<and> needs_correction (?its1 ! j)
         then \<exists>y. Angular_position (?its1 ! j) = Some y
                  \<and> its' ! j = set_orientation (ot, pt, kt) y (?its1 ! j)
         else its' ! j = ?its1 ! j"
      using True x "2.prems" run
      by (intro "2.IH"(1)[of x]) (auto simp: needs_correction_def)
    show ?thesis
    proof (cases "j = i")
      case True
      with "2.prems"(3) have at_i: "?its1 ! j = set_orientation (ot, pt, kt) x (its ! i)"
        by simp
      from ih show ?thesis
        unfolding at_i using True x \<open>needs_correction (its ! i)\<close>
        by (auto simp: needs_correction_def split: if_splits)
    next
      case False
      with ih "2.prems"(3) show ?thesis by (auto simp: needs_correction_def)
    qed
  qed
qed

lemma apply_total:
  assumes "\<forall>i \<in> set idxs. i < length its
             \<and> (needs_correction (its ! i) \<longrightarrow> Angular_position (its ! i) \<noteq> None)"
  shows "\<exists>its'. apply_orientation_correction idxs ot pt kt its = Inr its'"
  using assms
proof (induction idxs ot pt kt its rule: apply_orientation_correction.induct)
  case (1 ot pt kt its)
  then show ?case by simp
next
  case (2 i idxs ot pt kt its)
  show ?case
  proof (cases "needs_correction (its ! i)")
    case False
    with 2 show ?thesis by (auto simp: needs_correction_def)
  next
    case True
    with "2.prems" obtain x where x: "Angular_position (its ! i) = Some x" by auto
    let ?its1 = "its[i := set_orientation (ot, pt, kt) x (its ! i)]"
    have "\<forall>k \<in> set idxs. k < length ?its1
             \<and> (needs_correction (?its1 ! k) \<longrightarrow> Angular_position (?its1 ! k) \<noteq> None)"
      using "2.prems" by (auto simp: nth_list_update needs_correction_def)
    then have "\<exists>its'. apply_orientation_correction idxs ot pt kt ?its1 = Inr its'"
      using True x by (intro "2.IH"(1)[of x]) (auto simp: needs_correction_def)
    with True x show ?thesis by (auto simp: needs_correction_def)
  qed
qed

lemma apply_keeps:
  assumes "apply_orientation_correction idxs ot pt kt its = Inr its1"
    and "\<forall>i \<in> set idxs. i < length its" "j < length its"
  shows "seq_id (its1 ! j) = seq_id (its ! j)"
    and "Calibration_Status (its1 ! j) = Calibration_Status (its ! j)"
    and "Angular_position (its1 ! j) = Angular_position (its ! j)"
    and "j \<notin> set idxs \<Longrightarrow> its1 ! j = its ! j"
  using apply_char[OF assms] by (auto split: if_splits)

subsection \<open>Grouping\<close>

lemma keys_group_insert:
  "set (map fst (group_insert k i seqs)) = insert k (set (map fst seqs))"
  by (induction k i seqs rule: group_insert.induct) auto

lemma distinct_group_insert:
  "distinct (map fst seqs) \<Longrightarrow> distinct (map fst (group_insert k i seqs))"
proof (induction k i seqs rule: group_insert.induct)
  case (1 k i)
  then show ?case by simp
next
  case (2 k i k' idxs rest)
  then show ?case
    using keys_group_insert[of k i rest] by auto
qed

lemma map_of_group_insert:
  "map_of (group_insert k i seqs) sid =
     (if sid = k then Some (case map_of seqs k of None \<Rightarrow> [i] | Some idxs \<Rightarrow> idxs @ [i])
      else map_of seqs sid)"
  by (induction k i seqs rule: group_insert.induct) auto

lemma group_sequences_snoc:
  "group_sequences (its @ [x]) = group_insert (seq_id x) (length its) (group_sequences its)"
  by (simp add: group_sequences_def enumerate_append_eq)

lemma positions_of_snoc:
  "positions_of (its @ [x]) sid =
     positions_of its sid @ (if seq_id x = sid then [length its] else [])"
proof -
  have "filter (\<lambda>i. seq_id ((its @ [x]) ! i) = sid) [0..<length its]
      = filter (\<lambda>i. seq_id (its ! i) = sid) [0..<length its]"
    by (rule filter_cong) (simp_all add: nth_append)
  then show ?thesis by (simp add: positions_of_def)
qed

lemma group_sequences_char:
  "distinct (map fst (group_sequences its))
   \<and> (\<forall>sid. map_of (group_sequences its) sid =
         (if positions_of its sid = [] then None else Some (positions_of its sid)))"
proof (induction its rule: rev_induct)
  case Nil
  show ?case by (simp add: group_sequences_def positions_of_def)
next
  case (snoc x its)
  then show ?case
    by (auto simp: group_sequences_snoc distinct_group_insert map_of_group_insert
        positions_of_snoc)
qed

lemma group_sequences_positions:
  "(sid, idxs) \<in> set (group_sequences its) \<Longrightarrow> idxs = positions_of its sid"
proof -
  assume mem: "(sid, idxs) \<in> set (group_sequences its)"
  have "map_of (group_sequences its) sid = Some idxs"
    using mem group_sequences_char[of its] by (intro map_of_is_SomeI) simp_all
  with group_sequences_char[of its] show ?thesis by (auto split: if_splits)
qed

lemma take_at_positions:
  "take_at its (positions_of its sid) = filter (\<lambda>it. seq_id it = sid) its"
proof -
  have "filter (\<lambda>it. seq_id it = sid) (map (\<lambda>i. its ! i) [0..<length its])
      = map (\<lambda>i. its ! i) (filter ((\<lambda>it. seq_id it = sid) \<circ> (\<lambda>i. its ! i)) [0..<length its])"
    by (rule filter_map)
  then show ?thesis by (simp add: take_at_def positions_of_def map_nth comp_def)
qed

lemma positions_of_bound: "i \<in> set (positions_of its sid) \<Longrightarrow> i < length its"
  by (simp add: positions_of_def)

lemma positions_of_mem:
  "j < length its \<Longrightarrow> j \<in> set (positions_of its sid) \<longleftrightarrow> seq_id (its ! j) = sid"
  by (auto simp: positions_of_def)

lemma positions_of_cong:
  assumes "length its1 = length its" "\<forall>j < length its. seq_id (its1 ! j) = seq_id (its ! j)"
  shows "positions_of its1 sid = positions_of its sid"
  unfolding positions_of_def using assms by (auto intro: filter_cong)

lemma sequence_originals_cong:
  assumes "length its1 = length its" "\<forall>j < length its. seq_id (its1 ! j) = seq_id (its ! j)"
    and "\<forall>j < length its. seq_id (its ! j) = sid \<longrightarrow> its1 ! j = its ! j"
  shows "sequence_originals its1 sid = sequence_originals its sid"
proof -
  have "take_at its1 (positions_of its sid) = take_at its (positions_of its sid)"
    unfolding take_at_def using assms(3)
    by (intro map_cong) (auto simp: positions_of_def)
  then show ?thesis
    by (simp add: sequence_originals_def positions_of_cong[OF assms(1,2)])
qed

subsection \<open>The loop over sequences\<close>

lemma process_sequences_char:
  assumes "distinct (map fst seqs)"
    and "\<forall>(sid, idxs) \<in> set seqs. idxs = positions_of its sid"
    and "process_sequences lib seqs its = Inr its'"
  shows "length its' = length its \<and>
     (\<forall>j < length its. corrected_in lib (fst ` set seqs) its its' j)"
  using assms
proof (induction seqs arbitrary: its)
  case Nil
  then show ?case by (simp add: corrected_in_def)
next
  case (Cons seq rest)
  obtain sid idxs where seq: "seq = (sid, idxs)" by (cases seq) auto
  from Cons.prems(2) seq have idxs: "idxs = positions_of its sid" by simp
  from Cons.prems(1) seq have sid_fresh: "sid \<notin> fst ` set rest" and drest: "distinct (map fst rest)"
    by auto
  have keys: "fst ` set (seq # rest) = insert sid (fst ` set rest)"
    using seq by simp
  have orig: "filter (\<lambda>it. Calibration_Status it = original) (take_at its idxs)
      = sequence_originals its sid"
    by (simp add: sequence_originals_def idxs)
  show ?case
  proof (cases "length (sequence_originals its sid) < 3")
    case True
    with Cons.prems(3) seq orig have run: "process_sequences lib rest its = Inr its'"
      by simp
    have ih: "length its' = length its \<and>
     (\<forall>j < length its. corrected_in lib (fst ` set rest) its its' j)"
      using Cons.prems(2) by (intro Cons.IH[OF drest _ run]) auto
    have "corrected_in lib (fst ` set (seq # rest)) its its' j" if j: "j < length its" for j
    proof -
      from ih j have ihj: "corrected_in lib (fst ` set rest) its its' j" by blast
      show ?thesis
      proof (cases "seq_id (its ! j) = sid")
        case here: True
        with sid_fresh ihj have "its' ! j = its ! j" by (simp add: corrected_in_def)
        with here True show ?thesis by (simp add: corrected_in_def)
      next
        case False
        with ihj show ?thesis unfolding keys by (simp add: corrected_in_def)
      qed
    qed
    with ih show ?thesis by blast
  next
    case False
    with Cons.prems(3) seq orig obtain ot pt kt its1 where
      fit: "compute_sinusoidal_offsets lib (sequence_originals its sid) = Inr (Some (ot, pt, kt))"
      and app: "apply_orientation_correction idxs ot pt kt its = Inr its1"
      and run: "process_sequences lib rest its1 = Inr its'"
      by (auto split: sum.splits option.splits)
    have bound: "\<forall>i \<in> set idxs. i < length its"
      using idxs positions_of_bound by auto
    have len1: "length its1 = length its" using app by (rule apply_length)
    have keep: "\<forall>j < length its. seq_id (its1 ! j) = seq_id (its ! j)"
      using apply_keeps(1)[OF app bound] by simp
    have other: "its1 ! j = its ! j" if "j < length its" "seq_id (its ! j) \<noteq> sid" for j
      using apply_keeps(4)[OF app bound that(1)] that idxs by (simp add: positions_of_mem)
    have pos1: "\<forall>(sid', idxs') \<in> set rest. idxs' = positions_of its1 sid'"
      using Cons.prems(2) positions_of_cong[OF len1 keep] by auto
    have ih: "length its' = length its1 \<and>
     (\<forall>j < length its1. corrected_in lib (fst ` set rest) its1 its' j)"
      by (rule Cons.IH[OF drest pos1 run])
    have "corrected_in lib (fst ` set (seq # rest)) its its' j" if j: "j < length its" for j
    proof -
      from ih j len1 have ihj: "corrected_in lib (fst ` set rest) its1 its' j" by simp
      show ?thesis
      proof (cases "seq_id (its ! j) = sid")
        case here: True
        with sid_fresh keep j have "seq_id (its1 ! j) \<notin> fst ` set rest" by simp
        with ihj have final: "its' ! j = its1 ! j" by (simp add: corrected_in_def)
        have jin: "j \<in> set idxs" using here j idxs by (simp add: positions_of_mem)
        from apply_char[OF app bound j] jin
        have "if needs_correction (its ! j)
              then \<exists>x. Angular_position (its ! j) = Some x
                  \<and> its1 ! j = set_orientation (ot, pt, kt) x (its ! j)
              else its1 ! j = its ! j"
          by simp
        with final fit here False show ?thesis
          unfolding keys by (auto simp: corrected_in_def)
      next
        case there: False
        have same: "its1 ! j = its ! j" using other[OF j there] .
        have so: "sequence_originals its1 (seq_id (its ! j)) = sequence_originals its (seq_id (its ! j))"
          using other there by (intro sequence_originals_cong[OF len1 keep]) auto
        from ihj show ?thesis
          unfolding keys corrected_in_def same so using there by simp
      qed
    qed
    with ih len1 show ?thesis by simp
  qed
qed

subsection \<open>The step and the dataset\<close>

lemma group_sequences_keys:
  "j < length its \<Longrightarrow> seq_id (its ! j) \<in> fst ` set (group_sequences its)"
proof -
  assume j: "j < length its"
  then have "j \<in> set (positions_of its (seq_id (its ! j)))"
    by (simp add: positions_of_mem)
  then have "positions_of its (seq_id (its ! j)) \<noteq> []" by auto
  with group_sequences_char[of its]
  have "map_of (group_sequences its) (seq_id (its ! j)) \<noteq> None" by simp
  then show ?thesis by (auto dest: map_of_SomeD intro: rev_image_eqI)
qed

lemma propagate_step_char:
  assumes "propagate_step lib info = Inr info'"
  shows "length (items info') = length (items info)"
    and "j < length (items info) \<Longrightarrow> corrected_in lib UNIV (items info) (items info') j"
proof -
  let ?its = "items info"
  from assms obtain its' where run: "process_sequences lib (group_sequences ?its) ?its = Inr its'"
    and info': "info' = info\<lparr>items := its'\<rparr>"
    by (auto simp: propagate_step_def split: sum.splits)
  have pos: "\<forall>(sid, idxs) \<in> set (group_sequences ?its). idxs = positions_of ?its sid"
    using group_sequences_positions by auto
  have d: "distinct (map fst (group_sequences ?its))"
    using group_sequences_char[of ?its] by simp
  note ch = process_sequences_char[OF d pos run]
  show "length (items info') = length (items info)" using ch info' by simp
  show "corrected_in lib UNIV (items info) (items info') j" if j: "j < length (items info)"
  proof -
    from ch j have "corrected_in lib (fst ` set (group_sequences ?its)) ?its its' j" by blast
    with group_sequences_keys[OF j] info' show ?thesis by (simp add: corrected_in_def)
  qed
qed

lemma propagate_step_status:
  assumes "propagate_step lib info = Inr info'"
  shows "list_all2 same_status (items info) (items info')"
proof -
  have "same_status (items info ! j) (items info' ! j)" if "j < length (items info)" for j
    using propagate_step_char(2)[OF assms that]
    by (auto simp: corrected_in_def same_status_def split: if_splits)
  then show ?thesis
    using propagate_step_char(1)[OF assms] by (simp add: list_all2_conv_all_nth)
qed

lemma propagate_orientation_status:
  "propagate_orientation lib d = Inr d' \<Longrightarrow>
   list_all2 (\<lambda>(name, step) (name', step').
       name' = name \<and> list_all2 same_status (items step) (items step')) d d'"
proof (induction d arbitrary: d')
  case Nil
  then show ?case by simp
next
  case (Cons a d)
  obtain name info where a: "a = (name, info)" by (cases a) auto
  from Cons.prems a obtain info' rest' where
    st: "propagate_step lib info = Inr info'" and
    rest: "propagate_orientation lib d = Inr rest'" and
    d': "d' = (name, info') # rest'"
    by (auto split: sum.splits)
  from Cons.IH[OF rest] propagate_step_status[OF st] a d' show ?case by simp
qed

lemma sequence_originals_filter:
  "sequence_originals its sid
   = filter (\<lambda>it. seq_id it = sid \<and> Calibration_Status it = original) its"
  by (simp add: sequence_originals_def take_at_positions conj_commute)

subsection \<open>The fallback of the curve fit\<close>


subsection \<open>Rounding to a double\<close>

lemma rhe_bounds: "of_int \<lfloor>y\<rfloor> \<le> (of_int (round_half_even y) :: real)"
  "round_half_even y \<le> \<lfloor>y\<rfloor> + 1"
  by (simp_all add: round_half_even_def Let_def)

lemma rhe_of_int [simp]: "round_half_even (of_int k) = k"
  by (simp add: round_half_even_def)

lemma rhe_half: "round_half_even (of_int k + 1 / 2) = (if even k then k else k + 1)"
proof -
  have "\<lfloor>of_int k + 1 / 2 :: real\<rfloor> = k" by (rule floor_unique) simp_all
  then show ?thesis by (simp add: round_half_even_def Let_def)
qed

lemma rhe_mono: "a \<le> b \<Longrightarrow> round_half_even a \<le> round_half_even b"
proof -
  assume ab: "a \<le> b"
  then have fl: "\<lfloor>a\<rfloor> \<le> \<lfloor>b\<rfloor>" by (rule floor_mono)
  show ?thesis
  proof (cases "\<lfloor>a\<rfloor> = \<lfloor>b\<rfloor>")
    case True
    with ab show ?thesis by (auto simp: round_half_even_def Let_def)
  next
    case False
    with fl have "\<lfloor>a\<rfloor> + 1 \<le> \<lfloor>b\<rfloor>" by simp
    moreover have "round_half_even a \<le> \<lfloor>a\<rfloor> + 1" by (rule rhe_bounds)
    moreover have "\<lfloor>b\<rfloor> \<le> round_half_even b" by (simp add: round_half_even_def Let_def)
    ultimately show ?thesis by linarith
  qed
qed

lemma rhe_minus: "round_half_even (- y) = - round_half_even y"
proof (cases "y = of_int \<lfloor>y\<rfloor>")
  case True
  then obtain k where "y = of_int k" ..
  then show ?thesis by (simp flip: of_int_minus)
next
  case False
  then have fl: "\<lfloor>- y\<rfloor> = - \<lfloor>y\<rfloor> - 1"
    by (simp add: floor_minus ceiling_altdef)
  have lt: "of_int \<lfloor>y\<rfloor> < y" using False of_int_floor_le[of y] by linarith
  show ?thesis
    unfolding round_half_even_def Let_def fl
    using lt by (auto simp: algebra_simps)
qed

lemma ulp_pos [simp]: "0 < ulp x"
  by (simp add: ulp_def)

lemma ulp_nonneg [simp]: "0 \<le> ulp x"
  by (simp add: ulp_def)

lemma ulp_nz [simp]: "ulp x \<noteq> 0"
  using ulp_pos[of x] by linarith

lemma ulp_split:
  "2 powr (of_int (expo x) + 1) = 2 ^ 53 * ulp x"
  "2 powr of_int (expo x) = 2 ^ 52 * ulp x"
proof -
  have "2 ^ 53 * ulp x = 2 powr 53 * 2 powr (of_int (expo x) - 52)" by (simp add: ulp_def)
  also have "\<dots> = 2 powr (53 + (of_int (expo x) - 52))" by (rule powr_add[symmetric])
  also have "53 + (of_int (expo x) - 52) = (of_int (expo x) + 1 :: real)" by simp
  finally show "2 powr (of_int (expo x) + 1) = 2 ^ 53 * ulp x" by simp
  have "2 ^ 52 * ulp x = 2 powr 52 * 2 powr (of_int (expo x) - 52)" by (simp add: ulp_def)
  also have "\<dots> = 2 powr (52 + (of_int (expo x) - 52))" by (rule powr_add[symmetric])
  also have "52 + (of_int (expo x) - 52) = (of_int (expo x) :: real)" by simp
  finally show "2 powr of_int (expo x) = 2 ^ 52 * ulp x" by simp
qed

lemma ulp_minus [simp]: "ulp (- x) = ulp x"
  by (simp add: ulp_def expo_def)

lemma round_double_minus: "round_double (- x) = - round_double x"
  by (simp add: round_double_def rhe_minus)

lemma expo_bracket:
  assumes "0 < x"
  shows "x < 2 powr (of_int (expo x) + 1)"
    and "expo x = \<lfloor>log 2 x\<rfloor> \<Longrightarrow> 2 powr of_int (expo x) \<le> x"
proof -
  have br: "2 powr of_int \<lfloor>log 2 x\<rfloor> \<le> x \<and> x < 2 powr (of_int \<lfloor>log 2 x\<rfloor> + 1)"
    using floor_log_eq_powr_iff[of x 2 "\<lfloor>log 2 x\<rfloor>"] assms by simp
  have "\<lfloor>log 2 x\<rfloor> \<le> expo x" using assms by (simp add: expo_def)
  then have "(2::real) powr (of_int \<lfloor>log 2 x\<rfloor> + 1) \<le> 2 powr (of_int (expo x) + 1)"
    by (intro powr_mono) simp_all
  with br show "x < 2 powr (of_int (expo x) + 1)" by linarith
  show "2 powr of_int (expo x) \<le> x" if "expo x = \<lfloor>log 2 x\<rfloor>"
    using br that by simp
qed

lemma scaled_bracket:
  assumes "0 < x"
  shows "x / ulp x < of_int (2 ^ 53)"
    and "expo x = \<lfloor>log 2 x\<rfloor> \<Longrightarrow> of_int (2 ^ 52) \<le> x / ulp x"
proof -
  from expo_bracket(1)[OF assms] have "x < 2 ^ 53 * ulp x" by (simp only: ulp_split)
  then show "x / ulp x < of_int (2 ^ 53)" by (simp add: pos_divide_less_eq)
  show "of_int (2 ^ 52) \<le> x / ulp x" if "expo x = \<lfloor>log 2 x\<rfloor>"
  proof -
    from expo_bracket(2)[OF assms that] have "2 ^ 52 * ulp x \<le> x" by (simp only: ulp_split)
    then show ?thesis by (simp add: pos_le_divide_eq)
  qed
qed

lemma round_double_bracket:
  assumes "0 < x"
  shows "0 \<le> round_double x" and "round_double x \<le> 2 powr (of_int (expo x) + 1)"
    and "expo x = \<lfloor>log 2 x\<rfloor> \<Longrightarrow> 2 powr of_int (expo x) \<le> round_double x"
proof -
  have nz: "x \<noteq> 0" using assms by simp
  have "0 \<le> x / ulp x" using assms by (intro divide_nonneg_pos) simp_all
  then have "round_half_even 0 \<le> round_half_even (x / ulp x)" by (rule rhe_mono)
  then have "0 \<le> round_half_even (x / ulp x)" using rhe_of_int[of 0] by simp
  then show "0 \<le> round_double x" using nz by (simp add: round_double_def)
  have "round_half_even (x / ulp x) \<le> round_half_even (of_int (2 ^ 53))"
    using scaled_bracket(1)[OF assms] by (intro rhe_mono) simp
  then have "round_half_even (x / ulp x) \<le> 2 ^ 53" by (simp only: rhe_of_int)
  then have "(of_int (round_half_even (x / ulp x)) :: real) \<le> of_int (2 ^ 53)"
    by (simp only: of_int_le_iff)
  then have "of_int (round_half_even (x / ulp x)) * ulp x \<le> of_int (2 ^ 53) * ulp x"
    by (intro mult_right_mono) simp_all
  then show "round_double x \<le> 2 powr (of_int (expo x) + 1)"
    using nz by (simp add: round_double_def ulp_split)
  show "2 powr of_int (expo x) \<le> round_double x" if n: "expo x = \<lfloor>log 2 x\<rfloor>"
  proof -
    have "round_half_even (of_int (2 ^ 52)) \<le> round_half_even (x / ulp x)"
      using scaled_bracket(2)[OF assms n] by (intro rhe_mono)
    then have "2 ^ 52 \<le> round_half_even (x / ulp x)" by (simp only: rhe_of_int)
    then have "(of_int (2 ^ 52) :: real) \<le> of_int (round_half_even (x / ulp x))"
      by (simp only: of_int_le_iff)
    then have "of_int (2 ^ 52) * ulp x \<le> of_int (round_half_even (x / ulp x)) * ulp x"
      by (intro mult_right_mono) simp_all
    then show ?thesis
      using nz by (simp add: round_double_def ulp_split)
  qed
qed

lemma expo_mono: "0 < x \<Longrightarrow> x \<le> y \<Longrightarrow> expo x \<le> expo y"
  unfolding expo_def by (intro max.mono floor_mono) (simp_all add: log_le_cancel_iff)

lemma round_double_mono_pos:
  assumes "0 < x" "x \<le> y"
  shows "round_double x \<le> round_double y"
proof (cases "expo x = expo y")
  case True
  then have u: "ulp x = ulp y" by (simp add: ulp_def)
  have "round_half_even (x / ulp y) \<le> round_half_even (y / ulp y)"
    using assms by (intro rhe_mono divide_right_mono) simp_all
  then have "(of_int (round_half_even (x / ulp y)) :: real) \<le> of_int (round_half_even (y / ulp y))"
    by (simp only: of_int_le_iff)
  then have "of_int (round_half_even (x / ulp y)) * ulp y
           \<le> of_int (round_half_even (y / ulp y)) * ulp y"
    by (intro mult_right_mono) simp_all
  with assms u show ?thesis by (simp add: round_double_def)
next
  case False
  with expo_mono[OF assms] have lt: "expo x + 1 \<le> expo y" by simp
  have y: "0 < y" using assms by simp
  have "- 1022 \<le> expo x" by (simp add: expo_def)
  with lt have "expo y \<noteq> - 1022" by simp
  then have n: "expo y = \<lfloor>log 2 y\<rfloor>" using y by (auto simp: expo_def max_def split: if_splits)
  have "round_double x \<le> 2 powr (of_int (expo x) + 1)"
    by (rule round_double_bracket(2)[OF assms(1)])
  also have "\<dots> \<le> 2 powr of_int (expo y)"
  proof -
    from lt have "(of_int (expo x + 1) :: real) \<le> of_int (expo y)"
      by (simp only: of_int_le_iff)
    then show ?thesis by (intro powr_mono) simp_all
  qed
  also have "\<dots> \<le> round_double y" by (rule round_double_bracket(3)[OF y n])
  finally show ?thesis .
qed

lemma round_double_mono: "x \<le> y \<Longrightarrow> round_double x \<le> round_double y"
proof -
  assume xy: "x \<le> y"
  consider "0 < x" | "x = 0" | "x < 0" "y < 0" | "x < 0" "y = 0" | "x < 0" "0 < y"
    by linarith
  then show ?thesis
  proof cases
    case 1
    then show ?thesis using xy by (rule round_double_mono_pos)
  next
    case 2
    show ?thesis
    proof (cases "y = 0")
      case True
      with 2 show ?thesis by simp
    next
      case False
      with 2 xy have "0 < y" by simp
      from round_double_bracket(1)[OF this] 2 show ?thesis by (simp add: round_double_def)
    qed
  next
    case 3
    then have "0 < - y" "- y \<le> - x" using xy by simp_all
    then have "round_double (- y) \<le> round_double (- x)" by (rule round_double_mono_pos)
    then show ?thesis by (simp add: round_double_minus)
  next
    case 4
    then have "0 < - x" by simp
    from round_double_bracket(1)[OF this] 4 show ?thesis
      by (simp add: round_double_minus) (simp add: round_double_def)
  next
    case 5
    then have "0 < - x" by simp
    from round_double_bracket(1)[OF this] round_double_bracket(1)[OF 5(2)]
    show ?thesis by (simp add: round_double_minus)
  qed
qed

lemma expo_eq:
  assumes "0 < x" "2 powr of_int e \<le> x" "x < 2 powr (of_int e + 1)" "- 1022 \<le> e"
  shows "expo x = e"
proof -
  have "\<lfloor>log 2 x\<rfloor> = e"
    using floor_log_eq_powr_iff[of x 2 e] assms by simp
  with assms show ?thesis by (simp add: expo_def)
qed

lemma round_double_exact:
  assumes "0 < x" "expo x = e" "x / 2 powr (of_int e - 52) = of_int m"
  shows "round_double x = x"
proof -
  have u: "ulp x = 2 powr (of_int e - 52)" using assms(2) by (simp add: ulp_def)
  have "round_double x = of_int m * ulp x"
    using assms by (simp add: round_double_def u)
  also have "\<dots> = x / ulp x * ulp x" using assms(3) u by simp
  also have "\<dots> = x" by simp
  finally show ?thesis .
qed

lemma expo_180: "expo 180 = 7"
  by (rule expo_eq) simp_all

lemma expo_360: "expo 360 = 8"
  by (rule expo_eq) simp_all

lemma round_double_180: "round_double 180 = 180"
  by (rule round_double_exact[OF _ expo_180, of "180 * 2 ^ 45"]) (simp_all add: powr_minus_divide)

lemma round_double_360: "round_double 360 = 360"
  by (rule round_double_exact[OF _ expo_360, of "360 * 2 ^ 44"]) (simp_all add: powr_minus_divide)

lemma expo_below: "expo (180 + 1 / 2 ^ 45) = 7"
  by (rule expo_eq) simp_all

lemma round_double_below: "round_double (180 + 1 / 2 ^ 45) = 180 + 1 / 2 ^ 45"
  by (rule round_double_exact[OF _ expo_below, of "180 * 2 ^ 45 + 1"])
     (simp_all add: powr_minus_divide field_simps)

lemma expo_tiny: "expo (1 / 2 ^ 45) = - 45"
  by (rule expo_eq) (simp_all add: powr_minus_divide)

lemma round_double_tiny: "round_double (1 / 2 ^ 45) = 1 / 2 ^ 45"
  by (rule round_double_exact[OF _ expo_tiny, of "2 ^ 52"])
     (simp_all add: powr_minus_divide)

lemma expo_tie: "expo (360 - 1 / 2 ^ 45) = 8"
  by (rule expo_eq) simp_all

lemma round_double_tie: "round_double (360 - 1 / 2 ^ 45) = 360"
proof -
  have u: "ulp (360 - 1 / 2 ^ 45) = 1 / 2 ^ 44"
    unfolding ulp_def expo_tie by (simp add: powr_minus_divide)
  have y: "(360 - 1 / 2 ^ 45) / (1 / 2 ^ 44) = (of_int (360 * 2 ^ 44 - 1) + 1 / 2 :: real)"
    by simp
  have "round_half_even ((360 - 1 / 2 ^ 45) / (1 / 2 ^ 44)) = 360 * 2 ^ 44"
    unfolding y rhe_half by simp
  then have "round_double (360 - 1 / 2 ^ 45) = of_int (360 * 2 ^ 44) * (1 / 2 ^ 44)"
    unfolding round_double_def u by simp
  then show ?thesis by simp
qed

lemma fmod_range:
  assumes "0 < b"
  shows "0 \<le> a \<Longrightarrow> 0 \<le> fmod a b \<and> fmod a b < b"
    and "a < 0 \<Longrightarrow> - b < fmod a b \<and> fmod a b \<le> 0"
proof -
  have ab: "b * (a / b) = a" using assms by simp
  show "0 \<le> fmod a b \<and> fmod a b < b" if "0 \<le> a"
  proof -
    have q: "0 \<le> a / b" using that assms by simp
    have "b * of_int \<lfloor>a / b\<rfloor> \<le> b * (a / b)"
      using assms by (intro mult_left_mono) simp_all
    moreover have "a / b < of_int \<lfloor>a / b\<rfloor> + 1" by linarith
    then have "b * (a / b) < b * (of_int \<lfloor>a / b\<rfloor> + 1)"
      using assms by (intro mult_strict_left_mono) simp_all
    ultimately show ?thesis
      unfolding ab using q by (simp add: fmod_def algebra_simps)
  qed
  show "- b < fmod a b \<and> fmod a b \<le> 0" if "a < 0"
  proof -
    have "a / b < 0" using that assms by (rule divide_neg_pos)
    then have q: "\<not> 0 \<le> a / b" by simp
    have "b * (a / b) \<le> b * of_int \<lceil>a / b\<rceil>"
      using assms by (intro mult_left_mono) simp_all
    moreover have "of_int \<lceil>a / b\<rceil> - 1 < a / b" by linarith
    then have "b * (of_int \<lceil>a / b\<rceil> - 1) < b * (a / b)"
      using assms by (intro mult_strict_left_mono) simp_all
    ultimately show ?thesis
      unfolding ab using q by (simp add: fmod_def algebra_simps)
  qed
qed

lemma float_mod_360_range: "0 \<le> float_mod t 360 \<and> float_mod t 360 \<le> 360"
proof (cases "fmod t 360 < 0")
  case True
  then have neg: "t < 0" using fmod_range(1)[of 360 t] by (cases "0 \<le> t") auto
  from fmod_range(2)[OF _ neg, of 360] have "0 \<le> fmod t 360 + 360" "fmod t 360 + 360 \<le> 360"
    by simp_all
  then have "round_double 0 \<le> round_double (fmod t 360 + 360)"
    and "round_double (fmod t 360 + 360) \<le> round_double 360"
    by (simp_all only: round_double_mono)
  then show ?thesis
    using True by (simp add: float_mod_def Let_def round_double_360) (simp add: round_double_def)
next
  case False
  have "fmod t 360 \<le> 360"
    using fmod_range(1)[of 360 t] fmod_range(2)[of 360 t] by (cases "0 \<le> t") auto
  with False show ?thesis
    by (auto simp: float_mod_def Let_def)
qed

subsection \<open>The examples of step 06\<close>

lemma group_two: "group_sequences two_sequence_items = [(''A'', [0, 1, 2, 5]), (''B'', [3, 4, 6])]"
  by (simp add: group_sequences_def two_sequence_items_def example_item_def seq_id_def
      enumerate_eq_zip upt_conv_Cons)

lemma argsort3: "argsort [0, 90, 180] = [0, 1, 2]"
  by (simp add: argsort_def upt_conv_Cons)


lemma kappa_trend_0_3: "kappa_trend 0 3 x = 3"
  by (simp add: kappa_trend_def py_mod_def)

lemma compute_A:
  "compute_sinusoidal_offsets example_lib
     [example_item 1 ''A'' original (Some 0), example_item 3 ''A'' original (Some 90),
      example_item 6 ''A'' original (Some 180)]
   = Inr (Some ((\<lambda>x. 1), (\<lambda>x. 2), kappa_trend 0 3))"
  apply (simp add: compute_sinusoidal_offsets_def example_item_def argsort3 take_at_def)
  apply (simp add: unique_index_def argsort3 take_at_def upt_conv_Cons Let_def)
  apply (simp add: fit_trends_def example_lib_def fit_sinusoidal_trend_def Let_def
      radians_def degrees_def mean_def std_def sinusoidal_def)
  done

lemma propagate_two:
  "propagate_step example_lib (example_step two_sequence_items)
   = Inr (example_step (two_sequence_items[1 := example_item 2 ''A'' visually_calibrated (Some 45)]))"
proof -
  have origA: "filter (\<lambda>it. Calibration_Status it = original) (take_at two_sequence_items [0, 1, 2, 5])
     = [example_item 1 ''A'' original (Some 0), example_item 3 ''A'' original (Some 90),
      example_item 6 ''A'' original (Some 180)]"
    by (simp add: take_at_def two_sequence_items_def example_item_def)
  have origB: "length (filter (\<lambda>it. Calibration_Status it = original)
       (take_at (two_sequence_items[1 := example_item 2 ''A'' visually_calibrated (Some 45)]) [3, 4, 6])) = 2"
    by (simp add: take_at_def two_sequence_items_def example_item_def)
  have app: "apply_orientation_correction [0, 1, 2, 5] (\<lambda>x. 1) (\<lambda>x. 2) (kappa_trend 0 3)
       two_sequence_items
     = Inr (two_sequence_items[1 := example_item 2 ''A'' visually_calibrated (Some 45)])"
    by (simp add: two_sequence_items_def example_item_def set_orientation_def kappa_trend_0_3)
  have "process_sequences example_lib [(''A'', [0, 1, 2, 5]), (''B'', [3, 4, 6])]
          two_sequence_items
        = Inr (two_sequence_items[1 := example_item 2 ''A'' visually_calibrated (Some 45)])"
    using origA compute_A app origB by (simp add: Let_def)
  then show ?thesis
    by (simp add: propagate_step_def example_step_def group_two)
qed















lemma group_leading: "group_sequences leading_items = [(''A'', [0, 1, 2, 3])]"
  by (simp add: group_sequences_def leading_items_def example_item_def seq_id_def
      enumerate_eq_zip upt_conv_Cons)

lemma propagate_leading:
  "propagate_step example_lib (example_step leading_items) = Inr (example_step leading_items)"
proof -
  have "length (filter (\<lambda>it. Calibration_Status it = original)
          (take_at leading_items [0, 1, 2, 3])) = 2"
    by (simp add: take_at_def leading_items_def example_item_def)
  then have "process_sequences example_lib [(''A'', [0, 1, 2, 3])] leading_items
      = Inr leading_items"
    by (simp add: Let_def)
  then show ?thesis
    by (simp add: propagate_step_def example_step_def group_leading)
qed

section \<open>The claims\<close>



text \<open>
  C6. The claim is that the kappa trend always lies in the half-open interval from -180
  to 180. In double arithmetic the modulo of a tiny negative argument rounds up to 360:
  with slope 0 and the intercept the double just below -180, the sum with 180 is
  \<open>- 1 / 2 ^ 45\<close>, Python's \<^verbatim>\<open>%\<close> adds 360 and rounds to 360, and the
  trend returns 180.
\<close>

theorem kappa_trend_float_reaches_180:
  "kappa_trend_float 0 (- (180 + 1 / 2 ^ 45)) 0 = 180
   \<and> \<not> kappa_trend_float 0 (- (180 + 1 / 2 ^ 45)) 0 < 180"
proof -
  have a: "round_double (- (180 + 1 / 2 ^ 45)) = - (180 + 1 / 2 ^ 45)"
    by (simp only: round_double_minus round_double_below)
  have b: "round_double (- (1 / 2 ^ 45)) = - (1 / 2 ^ 45)"
    by (simp only: round_double_minus round_double_tiny)
  have c: "fmod (- (1 / 2 ^ 45)) 360 = - (1 / 2 ^ 45)"
  proof -
    have "\<lceil>- (1 / 2 ^ 45) / 360 :: real\<rceil> = 0"
      by (rule ceiling_unique) simp_all
    then show ?thesis by (simp add: fmod_def)
  qed
  have e: "- (1 / 2 ^ 45) + 360 = (360 - 1 / 2 ^ 45 :: real)" by simp
  have d: "float_mod (- (1 / 2 ^ 45)) 360 = 360"
    unfolding float_mod_def Let_def c e round_double_tie by simp
  have "round_double (round_double (0 * 0) + - (180 + 1 / 2 ^ 45)) = - (180 + 1 / 2 ^ 45)"
    using a by (simp add: round_double_def)
  moreover have "- (180 + 1 / 2 ^ 45) + 180 = (- (1 / 2 ^ 45) :: real)" by simp
  ultimately have "kappa_trend_float 0 (- (180 + 1 / 2 ^ 45)) 0 = 180"
    unfolding kappa_trend_float_def Let_def
    by (simp only: b d) (simp add: round_double_180)
  then show ?thesis by simp
qed

text \<open>
  C6, amended. For every slope, intercept and angle, the kappa trend in double arithmetic
  (overflow apart) lies in the closed interval from -180 to 180, as the comment of
  line 78 says; in exact arithmetic it is
  \<open>((slope * x + intercept + 180) mod 360) - 180\<close> and lies in the half-open
  interval from -180 to 180.
\<close>

theorem kappa_trend_float_range:
  "- 180 \<le> kappa_trend_float slope intercept x
   \<and> kappa_trend_float slope intercept x \<le> 180
   \<and> - 180 \<le> kappa_trend slope intercept x
   \<and> kappa_trend slope intercept x < 180"
proof -
  let ?r = "float_mod (round_double (round_double (round_double (slope * x) + intercept) + 180)) 360"
  have r: "0 \<le> ?r" "?r \<le> 360" using float_mod_360_range by simp_all
  have "round_double (- 180) \<le> round_double (?r - 180)"
    using r by (intro round_double_mono) simp
  moreover have "round_double (?r - 180) \<le> round_double 180"
    using r by (intro round_double_mono) simp
  ultimately have "- 180 \<le> round_double (?r - 180)" "round_double (?r - 180) \<le> 180"
    by (simp_all add: round_double_minus round_double_180)
  then have "- 180 \<le> kappa_trend_float slope intercept x
      \<and> kappa_trend_float slope intercept x \<le> 180"
    by (simp add: kappa_trend_float_def Let_def)
  moreover have "- 180 \<le> kappa_trend slope intercept x \<and> kappa_trend slope intercept x < 180"
    using py_mod_range[of 360 "slope * x + intercept + 180"]
    by (simp add: kappa_trend_def Let_def)
  ultimately show ?thesis by simp
qed

text \<open>
  C10. Given fewer than three sample points, the Omega/Phi fit calls neither the curve fit
  nor the spline (its result is the same whatever the library routines do): it returns
  the constant function whose value is the mean of the given values.
\<close>

theorem few_points_constant_mean:
  "length angular_positions < 3 \<Longrightarrow>
   fit_sinusoidal_trend lib angular_positions values = Inr (\<lambda>x. mean values)
   \<and> fit_sinusoidal_trend lib' angular_positions values
       = fit_sinusoidal_trend lib angular_positions values"
  by (simp add: fit_sinusoidal_trend_def)

text \<open>Two samples with values 2 and 4: the trend is 3 everywhere.\<close>

theorem few_points_constant_mean_witness:
  "length [0, 90 :: real] < 3 \<and>
   (\<exists>f. fit_sinusoidal_trend example_lib [0, 90] [2, 4] = Inr f \<and> f 45 = 3 \<and> f 500 = 3)"
  using few_points_constant_mean[of "[0, 90]" example_lib "[2, 4]" strict_lib]
  by (simp add: mean_def)

text \<open>
  C9. On the non-degenerate branch with a run of at least three items, the smoothing pass
  (window 3, order 2) returns the uniformly spaced angles unchanged, and the interpolator
  with the smoothing pass equals the interpolator without it (in exact arithmetic, with
  the filter as the local least-squares quadratic).
\<close>

theorem smoothing_changes_nothing:
  assumes "1 \<le> \<bar>th0 - th1\<bar>" "3 \<le> n"
  shows "savgol_filter_3_2 (theta_values th0 th1 n) = theta_values th0 th1 n
       \<and> smooth (theta_values th0 th1 n) = theta_values th0 th1 n
       \<and> interpolate_segment angle_to_xy radius z_value seg its
           = interpolate_segment_without_smoothing angle_to_xy radius z_value seg its
       \<and> interpolate_positions angle_to_xy sequences_data
           = interpolate_positions_without_smoothing angle_to_xy sequences_data"
  using assms
  by (simp add: savgol_id smooth_id length_theta_values without_smoothing_segment
      without_smoothing_positions)

text \<open>Anchors at 10 and 50, a run of three: 20, 30, 40 are returned as they are.\<close>

theorem smoothing_changes_nothing_witness:
  "(1::real) \<le> \<bar>10 - 50\<bar> \<and> (3::nat) \<le> 3
   \<and> savgol_filter_3_2 (theta_values 10 50 3) = [20, 30, 40]
   \<and> interpolate_positions circle_xy [(''S1'', example_step leading_items)]
       = interpolate_positions_without_smoothing circle_xy [(''S1'', example_step leading_items)]"
proof -
  have far: "(1::real) \<le> \<bar>10 - 50\<bar>" by simp
  have n: "(3::nat) \<le> 3" by simp
  have tv: "theta_values 10 50 3 = [20, 30, 40]"
    by (simp add: theta_values_def interior_def linspace_def upt_conv_Cons)
  from smoothing_changes_nothing[OF far n, of circle_xy _ _ _ _ "[(''S1'', example_step leading_items)]"]
  show ?thesis using tv by simp
qed




text \<open>
  C2. The claim is that an uncalibrated item joins the run only once an anchor has been
  seen, so that items before the first anchor are dropped. The scan appends every
  uncalibrated item, and the first anchor does not reset the run: with an uncalibrated
  item before the first anchor and one between the two anchors (at 10 and 50), the
  closed segment holds both, and the leading item leaves the step estimated, at the
  angle 70/3.
\<close>

theorem leading_run_is_interpolated:
  "uncalibrated_segments (sort_items leading_items) = [(1, 3, [0, 2])]
   \<and> Calibration_Status (sort_items leading_items ! 0) = uncalibrated
   \<and> Calibration_Status (items (interpolate_step circle_xy (example_step leading_items)) ! 0)
       = estimated
   \<and> Angular_position (items (interpolate_step circle_xy (example_step leading_items)) ! 0)
       = Some (70 / 3)"
proof -
  have tv: "smooth (theta_values 10 50 (Suc (Suc 0))) = [70 / 3, 110 / 3]"
    by (simp add: theta_values_def interior_def linspace_def smooth_def upt_conv_Cons)
  have seg: "interpolate_segment circle_xy 10 5 (1, 3, [0, 2]) leading_items ! 0
      = set_estimated circle_xy 10 5 (70 / 3) (leading_items ! 0)"
    by (simp add: interpolate_segment_def leading_items_def example_item_def tv)
  have "items (interpolate_step circle_xy (example_step leading_items)) ! 0
      = set_estimated circle_xy 10 5 (70 / 3) (leading_items ! 0)"
    using seg by (simp add: interpolate_step_def example_step_def sort_leading segs_leading)
  then show ?thesis
    by (simp add: sort_leading segs_leading set_estimated_def circle_xy_def)
       (simp add: leading_items_def example_item_def)
qed

text \<open>
  C3. Through step 05 every item keeps its status or goes from uncalibrated to estimated
  (so an original or visually calibrated item keeps its status); the items are compared
  position by position in the order step 05 leaves them in, a rearrangement of the
  step's items. Through step 06, whenever it returns, every item keeps its status.
\<close>

theorem status_only_uncalibrated_to_estimated:
  "list_all2 (\<lambda>(name, step) (name', step').
       name' = name \<and> mset (scan_order step) = mset (items step)
       \<and> list_all2 status_step (scan_order step) (items step'))
     data (interpolate_positions angle_to_xy data)
   \<and> (propagate_orientation lib data = Inr data' \<longrightarrow>
        list_all2 (\<lambda>(name, step) (name', step').
            name' = name \<and> list_all2 same_status (items step) (items step')) data data')"
  using interpolate_positions_status propagate_orientation_status by blast

text \<open>
  Two steps: the first has two uncalibrated items that step 05 makes estimated, the
  second a sequence that step 06 corrects.
\<close>

theorem status_only_uncalibrated_to_estimated_witness:
  "propagate_orientation example_lib
     [(''S1'', example_step leading_items), (''S2'', example_step two_sequence_items)]
   = Inr [(''S1'', example_step leading_items),
          (''S2'', example_step
             (two_sequence_items[1 := example_item 2 ''A'' visually_calibrated (Some 45)]))]
   \<and> list_all2 (\<lambda>(name, step) (name', step').
         name' = name \<and> mset (scan_order step) = mset (items step)
         \<and> list_all2 status_step (scan_order step) (items step'))
       [(''S1'', example_step leading_items), (''S2'', example_step two_sequence_items)]
       (interpolate_positions circle_xy
          [(''S1'', example_step leading_items), (''S2'', example_step two_sequence_items)])
   \<and> list_all2 (\<lambda>(name, step) (name', step').
         name' = name \<and> list_all2 same_status (items step) (items step'))
       [(''S1'', example_step leading_items), (''S2'', example_step two_sequence_items)]
       [(''S1'', example_step leading_items),
        (''S2'', example_step
           (two_sequence_items[1 := example_item 2 ''A'' visually_calibrated (Some 45)]))]"
proof -
  let ?d = "[(''S1'', example_step leading_items), (''S2'', example_step two_sequence_items)]"
  let ?d' = "[(''S1'', example_step leading_items),
          (''S2'', example_step
             (two_sequence_items[1 := example_item 2 ''A'' visually_calibrated (Some 45)]))]"
  have run: "propagate_orientation example_lib ?d = Inr ?d'"
    using propagate_leading propagate_two by simp
  from status_only_uncalibrated_to_estimated[of ?d circle_xy example_lib ?d'] run
  show ?thesis by blast
qed

text \<open>
  C7. When step 06 returns, every item of a sequence with fewer than three originals is
  as it was, in every field, and the other sequences are processed all the same: a
  visually calibrated or estimated item of a sequence with at least three originals has
  its Omega, Phi and Kappa overwritten by the trends fitted to the originals of its
  sequence.
\<close>

theorem insufficient_anchors_skipped:
  assumes run: "propagate_step lib info = Inr info'"
    and few: "length (filter (\<lambda>it. seq_id it = sid \<and> Calibration_Status it = original)
                       (items info)) < 3"
  shows "length (items info') = length (items info)
       \<and> (\<forall>j < length (items info).
            seq_id (items info ! j) = sid \<longrightarrow> items info' ! j = items info ! j)
       \<and> (\<forall>j < length (items info).
            needs_correction (items info ! j)
            \<and> 3 \<le> length (sequence_originals (items info) (seq_id (items info ! j)))
            \<longrightarrow> (\<exists>omega_t phi_t kappa_t x.
                   compute_sinusoidal_offsets lib
                     (sequence_originals (items info) (seq_id (items info ! j)))
                     = Inr (Some (omega_t, phi_t, kappa_t))
                 \<and> Angular_position (items info ! j) = Some x
                 \<and> items info' ! j
                     = (items info ! j)\<lparr>Omega := Some (omega_t x), Phi := Some (phi_t x),
                                         Kappa := Some (kappa_t x)\<rparr>))"
proof (intro conjI allI impI)
  show "length (items info') = length (items info)"
    using run by (rule propagate_step_char(1))
next
  fix j assume j: "j < length (items info)" and sid: "seq_id (items info ! j) = sid"
  from few sid have "\<not> 3 \<le> length (sequence_originals (items info) (seq_id (items info ! j)))"
    by (simp add: sequence_originals_filter)
  with propagate_step_char(2)[OF run j] show "items info' ! j = items info ! j"
    by (simp add: corrected_in_def)
next
  fix j assume j: "j < length (items info)"
    and c: "needs_correction (items info ! j)
            \<and> 3 \<le> length (sequence_originals (items info) (seq_id (items info ! j)))"
  with propagate_step_char(2)[OF run j]
  show "\<exists>omega_t phi_t kappa_t x.
                   compute_sinusoidal_offsets lib
                     (sequence_originals (items info) (seq_id (items info ! j)))
                     = Inr (Some (omega_t, phi_t, kappa_t))
                 \<and> Angular_position (items info ! j) = Some x
                 \<and> items info' ! j
                     = (items info ! j)\<lparr>Omega := Some (omega_t x), Phi := Some (phi_t x),
                                         Kappa := Some (kappa_t x)\<rparr>"
    by (simp add: corrected_in_def set_orientation_def)
qed

text \<open>
  Sequence B has two originals: its visually calibrated item keeps its Omega of 9, while
  that of sequence A (three originals) goes from 7 to 1.
\<close>

theorem insufficient_anchors_skipped_witness:
  "propagate_step example_lib (example_step two_sequence_items)
   = Inr (example_step (two_sequence_items[1 := example_item 2 ''A'' visually_calibrated (Some 45)]))
   \<and> length (filter (\<lambda>it. seq_id it = ''B'' \<and> Calibration_Status it = original)
               (items (example_step two_sequence_items))) < 3
   \<and> items (example_step
               (two_sequence_items[1 := example_item 2 ''A'' visually_calibrated (Some 45)])) ! 4
       = items (example_step two_sequence_items) ! 4
   \<and> Omega (items (example_step two_sequence_items) ! 4) = Some 9
   \<and> Omega (items (example_step two_sequence_items) ! 1) = Some 7
   \<and> Omega (items (example_step
               (two_sequence_items[1 := example_item 2 ''A'' visually_calibrated (Some 45)])) ! 1)
       = Some 1"
proof -
  let ?info = "example_step two_sequence_items"
  let ?info' = "example_step
       (two_sequence_items[1 := example_item 2 ''A'' visually_calibrated (Some 45)])"
  have few: "length (filter (\<lambda>it. seq_id it = ''B'' \<and> Calibration_Status it = original)
               (items ?info)) < 3"
    by (simp add: example_step_def two_sequence_items_def example_item_def seq_id_def)
  have j: "4 < length (items ?info)" "seq_id (items ?info ! 4) = ''B''"
    by (simp_all add: example_step_def two_sequence_items_def example_item_def seq_id_def)
  from insufficient_anchors_skipped[OF propagate_two few] j
  have "items ?info' ! 4 = items ?info ! 4" by blast
  moreover have "Omega (items ?info ! 4) = Some 9" "Omega (items ?info ! 1) = Some 7"
    "Omega (items ?info' ! 1) = Some 1"
    by (simp_all add: example_step_def two_sequence_items_def example_item_def)
  ultimately show ?thesis using propagate_two few by blast
qed

text \<open>
  C8. When the corrector returns, the items of the sequence whose status is visually
  calibrated or estimated have Omega, Phi and Kappa overwritten by the three trends at
  their angular position, and every other item of the list is as it was, in every field.
  It returns whenever each item it corrects has an angular position.
\<close>

theorem corrector_touches_only_its_statuses:
  assumes bound: "\<forall>i \<in> set sequence_items. i < length its"
  shows "(apply_orientation_correction sequence_items omega_t phi_t kappa_t its = Inr its' \<longrightarrow>
           length its' = length its
         \<and> (\<forall>j < length its.
              if j \<in> set sequence_items
                 \<and> (Calibration_Status (its ! j) = visually_calibrated
                    \<or> Calibration_Status (its ! j) = estimated)
              then \<exists>x. Angular_position (its ! j) = Some x
                     \<and> its' ! j = (its ! j)\<lparr>Omega := Some (omega_t x), Phi := Some (phi_t x),
                                            Kappa := Some (kappa_t x)\<rparr>
              else its' ! j = its ! j))
       \<and> ((\<forall>i \<in> set sequence_items.
              Calibration_Status (its ! i) = visually_calibrated
              \<or> Calibration_Status (its ! i) = estimated
              \<longrightarrow> Angular_position (its ! i) \<noteq> None)
            \<longrightarrow> (\<exists>its'. apply_orientation_correction sequence_items omega_t phi_t kappa_t its
                        = Inr its'))"
proof (intro conjI impI)
  assume run: "apply_orientation_correction sequence_items omega_t phi_t kappa_t its = Inr its'"
  show "length its' = length its" using run by (rule apply_length)
  show "\<forall>j < length its.
              if j \<in> set sequence_items
                 \<and> (Calibration_Status (its ! j) = visually_calibrated
                    \<or> Calibration_Status (its ! j) = estimated)
              then \<exists>x. Angular_position (its ! j) = Some x
                     \<and> its' ! j = (its ! j)\<lparr>Omega := Some (omega_t x), Phi := Some (phi_t x),
                                            Kappa := Some (kappa_t x)\<rparr>
              else its' ! j = its ! j"
  proof (intro allI impI)
    fix j assume j: "j < length its"
    from apply_char[OF run bound j]
    show "if j \<in> set sequence_items
                 \<and> (Calibration_Status (its ! j) = visually_calibrated
                    \<or> Calibration_Status (its ! j) = estimated)
              then \<exists>x. Angular_position (its ! j) = Some x
                     \<and> its' ! j = (its ! j)\<lparr>Omega := Some (omega_t x), Phi := Some (phi_t x),
                                            Kappa := Some (kappa_t x)\<rparr>
              else its' ! j = its ! j"
      by (auto simp: needs_correction_def set_orientation_def split: if_splits)
  qed
next
  assume "\<forall>i \<in> set sequence_items.
              Calibration_Status (its ! i) = visually_calibrated
              \<or> Calibration_Status (its ! i) = estimated
              \<longrightarrow> Angular_position (its ! i) \<noteq> None"
  with bound show "\<exists>its'. apply_orientation_correction sequence_items omega_t phi_t kappa_t its
                        = Inr its'"
    by (intro apply_total) (auto simp: needs_correction_def)
qed

text \<open>Sequence A of the two-sequence example: position 1 is corrected, position 0 is not.\<close>

theorem corrector_touches_only_its_statuses_witness:
  "list_all (\<lambda>i. i < length two_sequence_items) [0, 1, 2, 5]
   \<and> apply_orientation_correction [0, 1, 2, 5] (\<lambda>x. 1) (\<lambda>x. 2) (kappa_trend 0 3)
       two_sequence_items
     = Inr (two_sequence_items[1 := example_item 2 ''A'' visually_calibrated (Some 45)])
   \<and> Calibration_Status (two_sequence_items ! 1) = visually_calibrated
   \<and> Calibration_Status (two_sequence_items ! 0) = original
   \<and> (\<exists>x. Angular_position (two_sequence_items ! 1) = Some x
         \<and> (two_sequence_items[1 := example_item 2 ''A'' visually_calibrated (Some 45)]) ! 1
             = (two_sequence_items ! 1)
                 \<lparr>Omega := Some 1, Phi := Some 2, Kappa := Some (kappa_trend 0 3 x)\<rparr>)
   \<and> (two_sequence_items[1 := example_item 2 ''A'' visually_calibrated (Some 45)]) ! 0
       = two_sequence_items ! 0"
proof -
  let ?its' = "two_sequence_items[1 := example_item 2 ''A'' visually_calibrated (Some 45)]"
  have bound: "\<forall>i \<in> set [0, 1, 2, 5]. i < length two_sequence_items"
    by (simp add: two_sequence_items_def)
  have app: "apply_orientation_correction [0, 1, 2, 5] (\<lambda>x. 1) (\<lambda>x. 2) (kappa_trend 0 3)
       two_sequence_items = Inr ?its'"
    by (simp add: two_sequence_items_def example_item_def set_orientation_def kappa_trend_0_3)
  have st: "Calibration_Status (two_sequence_items ! 1) = visually_calibrated"
    "Calibration_Status (two_sequence_items ! 0) = original"
    "(1::nat) < length two_sequence_items" "(0::nat) < length two_sequence_items"
    by (simp_all add: two_sequence_items_def example_item_def)
  note inst = corrector_touches_only_its_statuses[OF bound,
      of "\<lambda>x. 1" "\<lambda>x. 2" "kappa_trend 0 3" ?its', THEN conjunct1, rule_format, OF app]
  from inst[THEN conjunct2, rule_format, OF st(3)] st(1)
  have one: "\<exists>x. Angular_position (two_sequence_items ! 1) = Some x
         \<and> ?its' ! 1 = (two_sequence_items ! 1)
                 \<lparr>Omega := Some 1, Phi := Some 2, Kappa := Some (kappa_trend 0 3 x)\<rparr>"
    by simp
  from inst[THEN conjunct2, rule_format, OF st(4)] st(2)
  have zero: "?its' ! 0 = two_sequence_items ! 0" by simp
  from bound have "list_all (\<lambda>i. i < length two_sequence_items) [0, 1, 2, 5]"
    by (simp add: list_all_iff)
  with app st(1,2) one zero show ?thesis by blast
qed




end
